theory Spec2Isabelle
  imports Main "HOL-Library.Word" "HOL-Library.Sublist"
begin

section \<open>The C library functions that \<open>main.cc\<close> calls on strings\<close>

text \<open>
  \<open>main.cc\<close> reads numbers out of command-line strings with \<open>atoi\<close> and
  \<open>sscanf\<close>.  Both are functions of the C library, modelled here as glibc implements
  them on the 32-bit x86 target whose register set (\<open>eax\<close> .. \<open>eflags\<close>) the dump
  header of \<open>start_dumping\<close> lists: \<open>int\<close>, \<open>long\<close> and \<open>unsigned\<close> are 32 bits
  wide.  A C string is a \<open>string\<close> without its terminating NUL.
\<close>

type_synonym u32 = "32 word"

definition isspace_c :: "char \<Rightarrow> bool" where
  \<comment> \<open>\<open>isspace\<close> in the C locale: space, \<open>\t\<close>, \<open>\n\<close>, \<open>\v\<close>, \<open>\f\<close>, \<open>\r\<close>.\<close>
  "isspace_c c = (of_char c \<in> {32, 9, 10, 11, 12, 13 :: nat})"

definition isdigit_c :: "char \<Rightarrow> bool" where
  "isdigit_c c = (48 \<le> (of_char c :: nat) \<and> (of_char c :: nat) \<le> 57)"

definition digit_val :: "char \<Rightarrow> nat" where
  "digit_val c = of_char c - 48"

fun dec_val :: "nat \<Rightarrow> string \<Rightarrow> nat" where
  \<comment> \<open>The value of a run of decimal digits, most significant first.\<close>
  "dec_val acc [] = acc"
| "dec_val acc (c # cs) = dec_val (acc * 10 + digit_val c) cs"

definition scan_int :: "string \<Rightarrow> (bool \<times> nat \<times> string) option" where
  \<comment> \<open>The subject sequence of \<open>strtol\<close>/\<open>strtoul\<close> in base 10 (and of the \<open>%u\<close>
     conversion): leading white space is skipped, then an optional sign, then at least
     one digit.  The result is the sign, the magnitude and the unread rest.\<close>
  "scan_int s =
     (let s1 = dropWhile isspace_c s;
          neg = (case s1 of [] \<Rightarrow> False | c # _ \<Rightarrow> c = CHR ''-'');
          s2 = (case s1 of [] \<Rightarrow> [] | c # r \<Rightarrow> if c = CHR ''-'' \<or> c = CHR ''+'' then r else s1);
          ds = takeWhile isdigit_c s2
      in if ds = [] then None else Some (neg, dec_val 0 ds, dropWhile isdigit_c s2))"

definition INT_MAX :: int where "INT_MAX = 2147483647"
definition INT_MIN :: int where "INT_MIN = - 2147483648"

definition conv_d :: "bool \<Rightarrow> nat \<Rightarrow> int" where
  \<comment> \<open>What \<open>strtol\<close> returns for a sign and a magnitude: it saturates at
     \<open>LONG_MIN\<close> and \<open>LONG_MAX\<close>.\<close>
  "conv_d neg m = (if neg then max INT_MIN (- int m) else min INT_MAX (int m))"

definition atoi :: "string \<Rightarrow> int" where
  \<comment> \<open>\<open>atoi(s)\<close> is \<open>(int) strtol(s, NULL, 10)\<close>: 0 when there is no number.\<close>
  "atoi s = (case scan_int s of None \<Rightarrow> 0 | Some (neg, m, _) \<Rightarrow> conv_d neg m)"

definition conv_u :: "bool \<Rightarrow> nat \<Rightarrow> u32" where
  \<comment> \<open>What \<open>%u\<close> stores: \<open>strtoul\<close>'s result, \<open>ULONG_MAX\<close> when the magnitude does
     not fit, the negation modulo \<open>2^32\<close> after a minus sign.\<close>
  "conv_u neg m =
     (if m > 4294967295 then - 1 else if neg then - of_nat m else of_nat m)"

definition sscanf_u_dash_u :: "string \<Rightarrow> u32 \<Rightarrow> u32 \<Rightarrow> int \<times> u32 \<times> u32" where
  \<comment> \<open>\<open>sscanf(spec, "%u-%u", &start, &end)\<close>: the number of items assigned (\<open>EOF\<close>,
     that is \<open>-1\<close>, when the input ends before the first conversion) and the values of
     \<open>start\<close> and \<open>end\<close> afterwards.\<close>
  "sscanf_u_dash_u spec start end =
     (case scan_int spec of
        None \<Rightarrow> (if dropWhile isspace_c spec = [] then - 1 else 0, start, end)
      | Some (neg1, m1, rest) \<Rightarrow>
          (case rest of
             [] \<Rightarrow> (1, conv_u neg1 m1, end)
           | c # rest' \<Rightarrow>
               if c \<noteq> CHR ''-'' then (1, conv_u neg1 m1, end)
               else (case scan_int rest' of
                       None \<Rightarrow> (1, conv_u neg1 m1, end)
                     | Some (neg2, m2, _) \<Rightarrow> (2, conv_u neg1 m1, conv_u neg2 m2))))"

section \<open>\<open>getopt_long\<close>\<close>

text \<open>
  The four argument parsers of \<open>main.cc\<close> call \<open>getopt_long\<close> in a loop.  It is a
  function of the C library, modelled here as glibc implements it (\<open>_getopt_internal_r\<close>
  and \<open>exchange\<close> of \<open>posix/getopt.c\<close>) for the calls that \<open>main.cc\<close> makes:
  \<^item> its state between calls is \<open>optind\<close>, the index of the next element of \<open>argv\<close>;
    \<open>nextchar\<close>, the rest of a cluster of short options (\<open>-fk\<close>) not yet returned; and
    \<open>first_nonopt\<close> and \<open>last_nonopt\<close>, the bounds of the elements that glibc has
    passed over as non-options.  The parser of a command assigns \<open>optind\<close> and leaves
    the rest of the state as the scan of the common options left it;
  \<^item> a call that starts a new element first lowers \<open>last_nonopt\<close> and \<open>first_nonopt\<close>
    to \<open>optind\<close> where they are above it;
  \<^item> the scan stops at the first element that is not an option (one that does not start
    with \<open>-\<close>, or is \<open>-\<close> alone), which is left for the caller: glibc chooses the
    ordering once, at the first call, and the first call of the process is that of
    \<open>parse_common_args\<close>, whose option string starts with \<open>+\<close>;
  \<^item> \<open>--\<close> ends the scan and is skipped.  Every element after it counts as passed
    over: \<open>last_nonopt\<close> becomes \<open>argc\<close>, and \<open>first_nonopt\<close> the index after the
    \<open>--\<close> unless elements are recorded as passed over already; those are then moved
    behind the \<open>--\<close> in \<open>argv\<close> (\<open>exchange\<close>) when they lie before the element that
    the scan started at;
  \<^item> when the scan is at the end of \<open>argv\<close>, also after \<open>--\<close>, and elements are
    recorded as passed over (\<open>first_nonopt\<close> differs from \<open>last_nonopt\<close>), \<open>optind\<close>
    is set back to \<open>first_nonopt\<close>.  After a \<open>--\<close> among the common options the
    record holds the command word, so a scan of the command's options that reaches the
    end of \<open>argv\<close> or a second \<open>--\<close> sets \<open>optind\<close> back to the command word;
  \<^item> a long option \<open>--name\<close>, \<open>--name=value\<close> or \<open>--name value\<close> is looked up in the
    table by its exact name first, then as an abbreviation that only one entry starts
    with; the tables of \<open>main.cc\<close> have a null \<open>flag\<close> in every entry, so the entry's
    \<open>val\<close> is returned;
  \<^item> a table that does not end with a zero entry (that of \<open>parse_dump_args\<close>) is read
    past its end as soon as no entry matches exactly: undefined behaviour, the result
    \<open>Ret_undefined\<close>;
  \<^item> every error (unknown option, missing or unexpected argument, ambiguous
    abbreviation) returns \<open>?\<close>; the message written to stderr is left out;
  \<^item> \<open>optarg\<close> is the empty string where \<open>getopt_long\<close> sets it to null (an option
    without argument): \<open>main.cc\<close> reads it only for options that take one.
  No option string of \<open>main.cc\<close> has an optional argument (\<open>::\<close>).

  \<open>getopt_long\<close> may reorder \<open>argv\<close>, so it returns \<open>argv\<close> as it leaves it, after
  the value it returns, \<open>optarg\<close> and its state.
\<close>

datatype has_arg = no_argument | required_argument

type_synonym long_option = "string \<times> has_arg \<times> char"

record option_table =
  entries :: "long_option list"
  terminated :: bool

record getopt_state =
  optind :: nat
  nextchar :: string
  first_nonopt :: nat
  last_nonopt :: nat

datatype getopt_ret =
  Ret_end \<comment> \<open>\<open>-1\<close>: no option is left\<close>
| Ret_opt char \<comment> \<open>an option character, or \<open>?\<close>\<close>
| Ret_undefined \<comment> \<open>the option table was read past its end\<close>

fun short_lookup :: "string \<Rightarrow> char \<Rightarrow> has_arg option" where
  \<comment> \<open>\<open>strchr(optstring, c)\<close>, and whether a colon follows the character found.\<close>
  "short_lookup [] c = None"
| "short_lookup (x # xs) c =
     (if x = c
      then (case xs of
              [] \<Rightarrow> Some no_argument
            | y # _ \<Rightarrow> if y = CHR '':'' then Some required_argument else Some no_argument)
      else short_lookup xs c)"

definition skip_order :: "string \<Rightarrow> string" where
  \<comment> \<open>A leading \<open>+\<close> or \<open>-\<close> of the option string selects the ordering and is no
     option character.\<close>
  "skip_order optstring =
     (case optstring of
        [] \<Rightarrow> []
      | c # cs \<Rightarrow> if c = CHR ''+'' \<or> c = CHR ''-'' then cs else optstring)"

definition getopt_short :: "string list \<Rightarrow> string \<Rightarrow> getopt_state \<Rightarrow> char \<Rightarrow> string
    \<Rightarrow> getopt_ret \<times> string \<times> getopt_state" where
  \<comment> \<open>The short option \<open>c\<close> of the element at index \<open>optind\<close>, followed in that element
     by \<open>rest\<close>.  The result is the return value, \<open>optarg\<close> and the state afterwards.\<close>
  "getopt_short argv optstring st c rest =
     (let ind' = (if rest = [] then optind st + 1 else optind st)
      in case (if c = CHR '':'' \<or> c = CHR '';'' then None
               else short_lookup (skip_order optstring) c) of
           None \<Rightarrow> (Ret_opt CHR ''?'', [], st\<lparr>optind := ind', nextchar := rest\<rparr>)
         | Some no_argument \<Rightarrow> (Ret_opt c, [], st\<lparr>optind := ind', nextchar := rest\<rparr>)
         | Some required_argument \<Rightarrow>
             if rest \<noteq> [] then (Ret_opt c, rest, st\<lparr>optind := ind' + 1, nextchar := []\<rparr>)
             else if length argv \<le> ind'
             then (Ret_opt CHR ''?'', [], st\<lparr>optind := ind', nextchar := []\<rparr>)
             else (Ret_opt c, argv ! ind', st\<lparr>optind := ind' + 1, nextchar := []\<rparr>))"

datatype long_lookup = Found long_option | No_match | Past_table

definition find_long :: "option_table \<Rightarrow> string \<Rightarrow> long_lookup" where
  "find_long tbl name =
     (case filter (\<lambda>(n, _, _). n = name) (entries tbl) of
        opt # _ \<Rightarrow> Found opt
      | [] \<Rightarrow>
          if \<not> terminated tbl then Past_table
          else (case filter (\<lambda>(n, _, _). prefix name n) (entries tbl) of
                  [opt] \<Rightarrow> Found opt
                | _ \<Rightarrow> No_match))"

definition getopt_longopt :: "string list \<Rightarrow> option_table \<Rightarrow> getopt_state \<Rightarrow> string
    \<Rightarrow> getopt_ret \<times> string \<times> getopt_state" where
  \<comment> \<open>The long option of the element at index \<open>optind\<close>; \<open>body\<close> is the element after
     its \<open>--\<close>.\<close>
  "getopt_longopt argv tbl st body =
     (let ind = optind st;
          name = takeWhile (\<lambda>c. c \<noteq> CHR ''='') body;
          after = dropWhile (\<lambda>c. c \<noteq> CHR ''='') body
      in case find_long tbl name of
           Past_table \<Rightarrow> (Ret_undefined, [], st\<lparr>optind := ind, nextchar := []\<rparr>)
         | No_match \<Rightarrow> (Ret_opt CHR ''?'', [], st\<lparr>optind := ind + 1, nextchar := []\<rparr>)
         | Found (n, arg, val) \<Rightarrow>
             if after \<noteq> []
             then (if arg = required_argument
                   then (Ret_opt val, tl after, st\<lparr>optind := ind + 1, nextchar := []\<rparr>)
                   else (Ret_opt CHR ''?'', [], st\<lparr>optind := ind + 1, nextchar := []\<rparr>))
             else if arg = required_argument
             then (if ind + 1 < length argv
                   then (Ret_opt val, argv ! (ind + 1), st\<lparr>optind := ind + 2, nextchar := []\<rparr>)
                   else (Ret_opt CHR ''?'', [], st\<lparr>optind := ind + 1, nextchar := []\<rparr>))
             else (Ret_opt val, [], st\<lparr>optind := ind + 1, nextchar := []\<rparr>))"

definition exchange :: "string list \<Rightarrow> getopt_state \<Rightarrow> string list \<times> getopt_state" where
  \<comment> \<open>\<open>exchange(argv, d)\<close>: the elements from \<open>first_nonopt\<close> up to \<open>last_nonopt\<close>
     (passed over) change places with those from \<open>last_nonopt\<close> up to \<open>optind\<close>
     (scanned since); the loop that swaps them runs only while
     \<open>top > middle && middle > bottom\<close>.  Then the record is moved to where the
     elements passed over now are.\<close>
  "exchange argv st =
     (let bottom = first_nonopt st; middle = last_nonopt st; top = optind st
      in (if top > middle \<and> middle > bottom
          then take bottom argv @ drop middle (take top argv) @ drop bottom (take middle argv) @
               drop top argv
          else argv,
          st\<lparr>first_nonopt := first_nonopt st + (optind st - last_nonopt st),
             last_nonopt := optind st\<rparr>))"

definition end_of_scan :: "getopt_state \<Rightarrow> getopt_state" where
  \<comment> \<open>\<open>if (d->__first_nonopt != d->__last_nonopt) d->optind = d->__first_nonopt;\<close>
     before \<open>return -1\<close> at the end of \<open>argv\<close>.\<close>
  "end_of_scan st =
     (if first_nonopt st \<noteq> last_nonopt st then st\<lparr>optind := first_nonopt st\<rparr> else st)"

definition getopt_long :: "string list \<Rightarrow> string \<Rightarrow> option_table \<Rightarrow> getopt_state
    \<Rightarrow> getopt_ret \<times> string \<times> getopt_state \<times> string list" where
  "getopt_long argv optstring longopts st0 =
     (case nextchar st0 of
        c # rest \<Rightarrow>
          (case getopt_short argv optstring st0 c rest of
             (ret, optarg, st') \<Rightarrow> (ret, optarg, st', argv))
      | [] \<Rightarrow>
          (let argc = length argv;
               st = st0\<lparr>last_nonopt := min (last_nonopt st0) (optind st0),
                        first_nonopt := min (first_nonopt st0) (optind st0)\<rparr>
           in if optind st < argc \<and> argv ! optind st = ''--''
              then (let st1 = st\<lparr>optind := optind st + 1\<rparr>;
                        (argv', st2) =
                          (if first_nonopt st1 \<noteq> last_nonopt st1 \<and> last_nonopt st1 \<noteq> optind st1
                           then exchange argv st1
                           else if first_nonopt st1 = last_nonopt st1
                           then (argv, st1\<lparr>first_nonopt := optind st1\<rparr>)
                           else (argv, st1))
                    in (Ret_end, [], end_of_scan (st2\<lparr>last_nonopt := argc, optind := argc\<rparr>),
                        argv'))
              else if argc \<le> optind st then (Ret_end, [], end_of_scan st, argv)
              else (case argv ! optind st of
                      [] \<Rightarrow> (Ret_end, [], st, argv)
                    | d # body \<Rightarrow>
                        if d \<noteq> CHR ''-'' then (Ret_end, [], st, argv)
                        else (case body of
                                [] \<Rightarrow> (Ret_end, [], st, argv)
                              | c # rest \<Rightarrow>
                                  (case (if c = CHR ''-'' then getopt_longopt argv longopts st rest
                                         else getopt_short argv optstring st c rest) of
                                     (ret, optarg, st') \<Rightarrow> (ret, optarg, st', argv))))))"

text \<open>
  Every call that returns an option consumes a character of a cluster or an element of
  \<open>argv\<close>, and leaves \<open>argv\<close> as it is, so a loop that calls \<open>getopt_long\<close> until it
  returns \<open>-1\<close> terminates.
\<close>

definition scan_left :: "string list \<Rightarrow> getopt_state \<Rightarrow> nat" where
  "scan_left argv st =
     (if nextchar st = []
      then (\<Sum>a \<leftarrow> drop (optind st) argv. length a + 2)
      else (\<Sum>a \<leftarrow> drop (optind st + 1) argv. length a + 2) + length (nextchar st))"

lemma drop_sum_le:
  "(\<Sum>a \<leftarrow> drop (Suc n) argv. length a + 2) \<le> (\<Sum>a \<leftarrow> drop n argv. length (a::string) + 2)"
  by (induction argv arbitrary: n) (auto simp: drop_Cons split: nat.splits intro: le_trans)

lemma drop_sum_elem:
  "n < length argv \<Longrightarrow>
   (\<Sum>a \<leftarrow> drop n argv. length (a::string) + 2) =
   length (argv ! n) + 2 + (\<Sum>a \<leftarrow> drop (Suc n) argv. length a + 2)"
  by (simp add: Cons_nth_drop_Suc [symmetric])

lemma getopt_short_progress:
  assumes "getopt_short argv optstring st c rest = (Ret_opt r, oa, st')"
  shows "scan_left argv st' < (\<Sum>a \<leftarrow> drop (Suc (optind st)) argv. length a + 2) + Suc (length rest)"
  using assms drop_sum_le [of "Suc (optind st)" argv]
  by (auto simp: getopt_short_def scan_left_def Let_def
      split: option.splits has_arg.splits if_splits)

lemma getopt_longopt_progress:
  assumes "getopt_longopt argv tbl st body = (Ret_opt r, oa, st')"
  shows "scan_left argv st' \<le> (\<Sum>a \<leftarrow> drop (Suc (optind st)) argv. length a + 2)"
  using assms drop_sum_le [of "Suc (optind st)" argv]
  by (auto simp: getopt_longopt_def scan_left_def Let_def
      split: long_lookup.splits has_arg.splits if_splits)

lemma getopt_long_argv:
  assumes "getopt_long argv optstring longopts st = (ret, oa, st', argv')"
    and "ret \<noteq> Ret_end"
  shows "argv' = argv"
  using assms
  by (auto simp: getopt_long_def Let_def split: list.splits if_splits prod.splits)

lemma getopt_long_progress:
  assumes "getopt_long argv optstring longopts st = (Ret_opt r, oa, st', argv')"
  shows "scan_left argv st' < scan_left argv st"
proof (cases "nextchar st")
  case (Cons c rest)
  with assms have "getopt_short argv optstring st c rest = (Ret_opt r, oa, st')"
    by (simp add: getopt_long_def split: prod.splits)
  from getopt_short_progress [OF this] Cons show ?thesis
    by (simp add: scan_left_def)
next
  case Nil
  define st1 where "st1 = st\<lparr>last_nonopt := min (last_nonopt st) (optind st),
                             first_nonopt := min (first_nonopt st) (optind st)\<rparr>"
  have s: "optind st1 = optind st" "scan_left argv st1 = scan_left argv st"
    by (simp_all add: st1_def scan_left_def)
  show ?thesis
  proof (cases "length argv \<le> optind st")
    case True
    with Nil assms show ?thesis
      by (simp add: getopt_long_def Let_def split: prod.splits)
  next
    case False
    then have n: "optind st < length argv" by simp
    note el = drop_sum_elem [OF n]
    obtain d body where a: "argv ! optind st = d # body" "d = CHR ''-''" "body \<noteq> []"
      using assms Nil False
      by (auto simp: getopt_long_def Let_def split: list.splits if_splits prod.splits)
    then obtain c rest where b: "body = c # rest"
      by (cases body) auto
    have "(if c = CHR ''-'' then getopt_longopt argv longopts st1 rest
           else getopt_short argv optstring st1 c rest) = (Ret_opt r, oa, st')"
      using assms Nil False a b
      by (auto simp: getopt_long_def Let_def st1_def split: if_splits prod.splits)
    then have "scan_left argv st' <
        (\<Sum>a \<leftarrow> drop (Suc (optind st)) argv. length a + 2) + Suc (length rest)"
      using getopt_short_progress [of argv optstring st1 c rest r oa st']
        getopt_longopt_progress [of argv longopts st1 rest r oa st'] s(1)
      by (auto split: if_splits)
    with el a b Nil show ?thesis
      by (simp add: scan_left_def)
  qed
qed


section \<open>Flags and argument parsing\<close>

text \<open>
  \<open>struct flags\<close> and the constants that \<open>parse_args\<close> stores in it are declared in
  headers that are not among the sources.  The record below has the fields that
  \<open>main.cc\<close> assigns and reads; the numeric ones are \<open>int\<close>s.  The constants are
  parameters of the model, as is the largest value of the type of \<open>goto_event\<close>.
  \<open>INVALID\<close> and \<open>CREATED_NONE\<close> stand for the zero values of the two enumerations.
  The macros \<open>MAX\<close> and \<open>MIN\<close> are the larger and the smaller of their two arguments.
\<close>

datatype rr_option = INVALID | RECORD | REPLAY | DUMP_EVENTS

datatype created_how = CREATED_NONE | CREATED_EXEC | CREATED_FORK

record flags =
  max_rbc :: int
  max_events :: int
  ignore_sig :: int
  checksum :: int
  dbgport :: int
  dump_at :: int
  dump_on :: int
  wait_secs :: int
  goto_event :: int
  target_process :: int
  process_created_how :: created_how
  option :: rr_option
  redirect :: bool
  use_syscall_buffer :: bool
  suppress_performance_warnings :: bool
  force_enable_debugger :: bool
  check_cached_mmaps :: bool
  mark_stdio :: bool
  cpu_unbound :: bool
  verbose :: bool
  dont_launch_debugger :: bool
  raw_dump :: bool
  gdb_command_file_path :: string
  syscall_buffer_lib_path :: string

record constants =
  DEFAULT_MAX_RBC :: int
  DEFAULT_MAX_EVENTS :: int
  CHECKSUM_NONE :: int
  CHECKSUM_SYSCALL :: int
  CHECKSUM_ALL :: int
  DUMP_AT_NONE :: int
  DUMP_ON_NONE :: int
  NSIG :: int
  GOTO_EVENT_MAX :: int
  SYSCALLBUF_LIB_FILENAME :: string

text \<open>
  The four parsers have the same loop,
  \<^verbatim>\<open>while (1) { switch (getopt_long(...)) { case -1: return optind; ... default: return -1; } }\<close>,
  and differ in the option string, the option table and the cases of the \<open>switch\<close>.
  The cases are a function that returns the updated flags, or \<open>None\<close> for \<open>default\<close>.
  The result is the value returned, the flags, the state of \<open>getopt_long\<close> and
  \<open>argv\<close> as \<open>getopt_long\<close> left it; it is \<open>None\<close> when \<open>getopt_long\<close> has
  undefined behaviour.
\<close>

function getopt_loop :: "(char \<Rightarrow> string \<Rightarrow> flags \<Rightarrow> flags option) \<Rightarrow> string list \<Rightarrow> string
    \<Rightarrow> option_table \<Rightarrow> getopt_state \<Rightarrow> flags
    \<Rightarrow> (int \<times> flags \<times> getopt_state \<times> string list) option" where
  "getopt_loop cases argv optstring opts st flags =
     (case getopt_long argv optstring opts st of
        (Ret_end, optarg, st', argv') \<Rightarrow> Some (int (optind st'), flags, st', argv')
      | (Ret_undefined, optarg, st', argv') \<Rightarrow> None
      | (Ret_opt c, optarg, st', argv') \<Rightarrow>
          (case cases c optarg flags of
             None \<Rightarrow> Some (- 1, flags, st', argv')
           | Some flags' \<Rightarrow> getopt_loop cases argv' optstring opts st' flags'))"
  by pat_completeness auto
termination
proof (relation "measure (\<lambda>(cases, argv, optstring, opts, st, flags). scan_left argv st)")
  show "wf (measure (\<lambda>(cases, argv, optstring, opts, st, flags). scan_left argv st))"
    by simp
next
  fix cases :: "char \<Rightarrow> string \<Rightarrow> flags \<Rightarrow> flags option"
  fix argv optstring opts st flags x1 x2 c optarg x3 st' argv' flags'
  assume "(x1, x2) = getopt_long argv optstring opts st" "x1 = Ret_opt c" "(optarg, x3) = x2"
    "(st', argv') = x3"
  then have g: "getopt_long argv optstring opts st = (Ret_opt c, optarg, st', argv')"
    by simp
  from getopt_long_argv [OF g] have "argv' = argv"
    by simp
  with getopt_long_progress [OF g]
  show "((cases, argv', optstring, opts, st', flags'), (cases, argv, optstring, opts, st, flags))
        \<in> measure (\<lambda>(cases, argv, optstring, opts, st, flags). scan_left argv st)"
    by simp
qed

text \<open>
  The options that successive calls of \<open>getopt_long\<close> return from a state on, with
  their arguments, and the state and \<open>argv\<close> when the scan ends: the options given on
  the command line, as the parsers see them.
\<close>

function getopt_seq :: "string list \<Rightarrow> string \<Rightarrow> option_table \<Rightarrow> getopt_state
    \<Rightarrow> (char \<times> string) list \<times> getopt_state \<times> string list" where
  "getopt_seq argv optstring opts st =
     (case getopt_long argv optstring opts st of
        (Ret_opt c, optarg, st', argv') \<Rightarrow>
          (case getopt_seq argv' optstring opts st' of
             (given, final) \<Rightarrow> ((c, optarg) # given, final))
      | (Ret_end, optarg, st', argv') \<Rightarrow> ([], st', argv')
      | (Ret_undefined, optarg, st', argv') \<Rightarrow> ([], st', argv'))"
  by pat_completeness auto
termination
proof (relation "measure (\<lambda>(argv, optstring, opts, st). scan_left argv st)")
  show "wf (measure (\<lambda>(argv, optstring, opts, st). scan_left argv st))"
    by simp
next
  fix argv optstring opts st x1 x2 c optarg x3 st' argv'
  assume "(x1, x2) = getopt_long argv optstring opts st" "x1 = Ret_opt c" "(optarg, x3) = x2"
    "(st', argv') = x3"
  then have g: "getopt_long argv optstring opts st = (Ret_opt c, optarg, st', argv')"
    by simp
  from getopt_long_argv [OF g] have "argv' = argv"
    by simp
  with getopt_long_progress [OF g]
  show "((argv', optstring, opts, st'), (argv, optstring, opts, st))
        \<in> measure (\<lambda>(argv, optstring, opts, st). scan_left argv st)"
    by simp
qed

declare getopt_loop.simps [simp del] getopt_seq.simps [simp del]

definition record_opts :: option_table where
  "record_opts = \<lparr>entries =
     [(''force-syscall-buffer'', no_argument, CHR ''b''),
      (''ignore-signal'', required_argument, CHR ''i''),
      (''num-cpu-ticks'', required_argument, CHR ''c''),
      (''num-events'', required_argument, CHR ''e''),
      (''no-syscall-buffer'', no_argument, CHR ''n'')],
     terminated = True\<rparr>"

definition record_case :: "constants \<Rightarrow> char \<Rightarrow> string \<Rightarrow> flags \<Rightarrow> flags option" where
  "record_case k c optarg flags =
     (if c = CHR ''b'' then Some (flags\<lparr>use_syscall_buffer := True\<rparr>)
      else if c = CHR ''c'' then Some (flags\<lparr>max_rbc := max 1 (atoi optarg)\<rparr>)
      else if c = CHR ''e'' then Some (flags\<lparr>max_events := max 1 (atoi optarg)\<rparr>)
      else if c = CHR ''i''
      then Some (flags\<lparr>ignore_sig := min (NSIG k - 1) (max 1 (atoi optarg))\<rparr>)
      else if c = CHR ''n'' then Some (flags\<lparr>use_syscall_buffer := False\<rparr>)
      else None)"

definition parse_record_args :: "constants \<Rightarrow> nat \<Rightarrow> string list \<Rightarrow> getopt_state \<Rightarrow> flags
    \<Rightarrow> (int \<times> flags \<times> getopt_state \<times> string list) option" where
  "parse_record_args k cmdi argv st flags =
     getopt_loop (record_case k) argv ''+c:be:i:n'' record_opts (st\<lparr>optind := cmdi + 1\<rparr>) flags"

definition replay_opts :: option_table where
  "replay_opts = \<lparr>entries =
     [(''autopilot'', no_argument, CHR ''a''),
      (''dbgport'', required_argument, CHR ''s''),
      (''goto'', required_argument, CHR ''g''),
      (''no-redirect-output'', no_argument, CHR ''q''),
      (''onfork'', required_argument, CHR ''f''),
      (''onprocess'', required_argument, CHR ''p''),
      (''gdb-x'', required_argument, CHR ''x'')],
     terminated = True\<rparr>"

definition replay_case :: "constants \<Rightarrow> char \<Rightarrow> string \<Rightarrow> flags \<Rightarrow> flags option" where
  "replay_case k c optarg flags =
     (if c = CHR ''a''
      then Some (flags\<lparr>goto_event := GOTO_EVENT_MAX k, dont_launch_debugger := True\<rparr>)
      else if c = CHR ''f''
      then Some (flags\<lparr>target_process := atoi optarg, process_created_how := CREATED_FORK\<rparr>)
      else if c = CHR ''g'' then Some (flags\<lparr>goto_event := atoi optarg\<rparr>)
      else if c = CHR ''p''
      then Some (flags\<lparr>target_process := atoi optarg, process_created_how := CREATED_EXEC\<rparr>)
      else if c = CHR ''q'' then Some (flags\<lparr>redirect := False\<rparr>)
      else if c = CHR ''s''
      then Some (flags\<lparr>dbgport := atoi optarg, dont_launch_debugger := True\<rparr>)
      else if c = CHR ''x'' then Some (flags\<lparr>gdb_command_file_path := optarg\<rparr>)
      else None)"

definition parse_replay_args :: "constants \<Rightarrow> nat \<Rightarrow> string list \<Rightarrow> getopt_state \<Rightarrow> flags
    \<Rightarrow> (int \<times> flags \<times> getopt_state \<times> string list) option" where
  "parse_replay_args k cmdi argv st flags =
     getopt_loop (replay_case k) argv ''+af:g:p:qs:x:'' replay_opts (st\<lparr>optind := cmdi + 1\<rparr>) flags"

text \<open>The table of \<open>parse_dump_args\<close> has no zero entry at its end.\<close>

definition dump_opts :: option_table where
  "dump_opts = \<lparr>entries = [(''raw'', no_argument, CHR ''r'')], terminated = False\<rparr>"

definition dump_case :: "char \<Rightarrow> string \<Rightarrow> flags \<Rightarrow> flags option" where
  "dump_case c optarg flags =
     (if c = CHR ''r'' then Some (flags\<lparr>raw_dump := True\<rparr>) else None)"

definition parse_dump_args :: "nat \<Rightarrow> string list \<Rightarrow> getopt_state \<Rightarrow> flags
    \<Rightarrow> (int \<times> flags \<times> getopt_state \<times> string list) option" where
  "parse_dump_args cmdi argv st flags =
     getopt_loop dump_case argv ''r'' dump_opts (st\<lparr>optind := cmdi + 1\<rparr>) flags"

definition common_opts :: option_table where
  "common_opts = \<lparr>entries =
     [(''checksum'', required_argument, CHR ''c''),
      (''check-cached-mmaps'', no_argument, CHR ''k''),
      (''cpu-unbound'', no_argument, CHR ''u''),
      (''dump-at'', required_argument, CHR ''t''),
      (''dump-on'', required_argument, CHR ''d''),
      (''force-enable-debugger'', no_argument, CHR ''f''),
      (''mark-stdio'', no_argument, CHR ''m''),
      (''suppress-performance-warnings'', no_argument, CHR ''s''),
      (''verbose'', no_argument, CHR ''v''),
      (''wait-secs'', required_argument, CHR ''w'')],
     terminated = True\<rparr>"

definition common_case :: "constants \<Rightarrow> char \<Rightarrow> string \<Rightarrow> flags \<Rightarrow> flags option" where
  "common_case k c optarg flags =
     (if c = CHR ''c''
      then (if optarg = ''on-syscalls'' then Some (flags\<lparr>checksum := CHECKSUM_SYSCALL k\<rparr>)
            else if optarg = ''on-all-events'' then Some (flags\<lparr>checksum := CHECKSUM_ALL k\<rparr>)
            else Some (flags\<lparr>checksum := atoi optarg\<rparr>))
      else if c = CHR ''d'' then Some (flags\<lparr>dump_on := atoi optarg\<rparr>)
      else if c = CHR ''f'' then Some (flags\<lparr>force_enable_debugger := True\<rparr>)
      else if c = CHR ''k'' then Some (flags\<lparr>check_cached_mmaps := True\<rparr>)
      else if c = CHR ''m'' then Some (flags\<lparr>mark_stdio := True\<rparr>)
      else if c = CHR ''s'' then Some (flags\<lparr>suppress_performance_warnings := True\<rparr>)
      else if c = CHR ''t'' then Some (flags\<lparr>dump_at := atoi optarg\<rparr>)
      else if c = CHR ''u'' then Some (flags\<lparr>cpu_unbound := True\<rparr>)
      else if c = CHR ''v'' then Some (flags\<lparr>verbose := True\<rparr>)
      else if c = CHR ''w'' then Some (flags\<lparr>wait_secs := atoi optarg\<rparr>)
      else None)"

definition parse_common_args :: "constants \<Rightarrow> string list \<Rightarrow> getopt_state \<Rightarrow> flags
    \<Rightarrow> (int \<times> flags \<times> getopt_state \<times> string list) option" where
  "parse_common_args k argv st flags =
     getopt_loop (common_case k) argv ''+c:d:fkmst:uvw:'' common_opts st flags"

definition getopt_initial :: getopt_state where
  \<comment> \<open>The state of \<open>getopt_long\<close> when the process starts: \<open>optind\<close> is 1, and the
     first call sets \<open>first_nonopt\<close> and \<open>last_nonopt\<close> to \<open>optind\<close>.\<close>
  "getopt_initial = \<lparr>optind = 1, nextchar = [], first_nonopt = 1, last_nonopt = 1\<rparr>"

text \<open>
  \<open>parse_args\<close> returns the index of the first positional argument or \<open>-1\<close>, with the
  flags and \<open>argv\<close> as the parsers left them.
\<close>

definition parse_args :: "constants \<Rightarrow> string list \<Rightarrow> flags
    \<Rightarrow> (int \<times> flags \<times> string list) option" where
  "parse_args k argv flags0 =
     (let flags = flags0\<lparr>max_rbc := DEFAULT_MAX_RBC k,
                         max_events := DEFAULT_MAX_EVENTS k,
                         checksum := CHECKSUM_NONE k,
                         dbgport := - 1,
                         dump_at := DUMP_AT_NONE k,
                         dump_on := DUMP_ON_NONE k,
                         redirect := True,
                         use_syscall_buffer := True,
                         suppress_performance_warnings := False\<rparr>
      in case parse_common_args k argv getopt_initial flags of
           None \<Rightarrow> None
         | Some (cmdi, flags, st, argv1) \<Rightarrow>
             if 0 > cmdi then Some (- 1, flags, argv1)
             else if 0 = cmdi \<or> cmdi \<ge> int (length argv) then Some (- 1, flags, argv1)
             else let cmd = argv1 ! nat cmdi
                  in if cmd = ''record''
                     then map_option (\<lambda>(r, f, _, a). (r, f, a))
                            (parse_record_args k (nat cmdi) argv1 st (flags\<lparr>option := RECORD\<rparr>))
                     else if cmd = ''replay''
                     then map_option (\<lambda>(r, f, _, a). (r, f, a))
                            (parse_replay_args k (nat cmdi) argv1 st (flags\<lparr>option := REPLAY\<rparr>))
                     else if cmd = ''dump''
                     then map_option (\<lambda>(r, f, _, a). (r, f, a))
                            (parse_dump_args (nat cmdi) argv1 st
                               (flags\<lparr>option := DUMP_EVENTS\<rparr>))
                     else Some (- 1, flags, argv1))"

definition flags_zero :: flags where
  \<comment> \<open>The flags that \<open>rr_flags_for_init()\<close> returns: an object of static storage
     duration, so every field is zero.\<close>
  "flags_zero = \<lparr>max_rbc = 0, max_events = 0, ignore_sig = 0, checksum = 0, dbgport = 0,
     dump_at = 0, dump_on = 0, wait_secs = 0, goto_event = 0, target_process = 0,
     process_created_how = CREATED_NONE, option = INVALID, redirect = False,
     use_syscall_buffer = False, suppress_performance_warnings = False,
     force_enable_debugger = False, check_cached_mmaps = False, mark_stdio = False,
     cpu_unbound = False, verbose = False, dont_launch_debugger = False, raw_dump = False,
     gdb_command_file_path = [], syscall_buffer_lib_path = []\<rparr>"

section \<open>Trace frames and the trace stream\<close>

text \<open>
  \<open>struct trace_frame\<close>, \<open>trace_frame::dump\<close> and \<open>TraceIfstream\<close> are declared in
  \<open>trace.h\<close>, which is not among the sources; \<open>main.cc\<close> only reads
  \<open>frame.global_time\<close>, compares it with the \<open>uint32_t\<close> bounds of a spec, and calls
  \<open>frame.dump\<close>.
\<close>

record registers =
  eax :: u32
  ebx :: u32
  ecx :: u32
  edx :: u32
  esi :: u32
  edi :: u32
  ebp :: u32
  orig_eax :: u32
  esp :: u32
  eip :: u32
  eflags :: u32

text \<open>
  Modelled from the spec: \<open>struct trace_frame\<close> (\<open>trace.h\<close>).  The spec's TraceFrame has
  \<open>global_time\<close>, \<open>thread_time\<close>, \<open>tid\<close>, \<open>reason\<close>, an entry/exit flag, the hardware
  counters (interrupt count, page faults, adapted retired-conditional-branch count,
  instruction count) and a full general-purpose register snapshot.
\<close>

record trace_frame =
  global_time :: u32
  thread_time :: u32
  tid :: int
  reason :: int
  entry_exit :: int
  hw_interrupts :: int
  page_faults :: int
  adapted_rbc :: int
  instructions :: int
  recorded_regs :: registers

text \<open>
  Modelled from the spec: \<open>TraceIfstream\<close> (\<open>trace.h\<close>).  The spec's Trace is an ordered
  sequence of frames, read forward only.  The stream is the list of the frames not yet
  read: \<open>trace.good()\<close> holds while a frame is left, and \<open>trace >> frame\<close> takes the
  first one.
\<close>

type_synonym trace_ifstream = "trace_frame list"

datatype out_item =
  Text string \<comment> \<open>characters written with \<open>fprintf\<close>\<close>
| Frame_dump trace_frame bool \<comment> \<open>the call \<open>frame.dump(out, raw_dump)\<close>\<close>

section \<open>Dumping\<close>

fun dump_loop :: "u32 \<Rightarrow> u32 \<Rightarrow> bool \<Rightarrow> trace_ifstream \<Rightarrow> out_item list
    \<Rightarrow> trace_ifstream \<times> out_item list" where
  \<comment> \<open>The \<open>while (trace.good())\<close> loop of \<open>dump_events_matching\<close>.\<close>
  "dump_loop start end raw [] out = ([], out)"
| "dump_loop start end raw (frame # trace) out =
     (if end < global_time frame then (trace, out)
      else if start \<le> global_time frame \<and> global_time frame \<le> end
      then dump_loop start end raw trace (out @ [Frame_dump frame raw])
      else dump_loop start end raw trace out)"

definition dump_events_matching :: "bool \<Rightarrow> trace_ifstream \<Rightarrow> out_item list \<Rightarrow> string option
    \<Rightarrow> trace_ifstream \<times> out_item list" where
  \<comment> \<open>The first argument is \<open>rr_flags()->raw_dump\<close>; a null \<open>spec\<close> is \<open>None\<close>.\<close>
  "dump_events_matching raw trace out spec =
     (let start0 = 0; end0 = - 1;
          (start, end) =
            (case spec of
               None \<Rightarrow> (start0, end0)
             | Some s \<Rightarrow>
                 (case sscanf_u_dash_u s start0 end0 of
                    (n, start1, end1) \<Rightarrow>
                      if 2 > n then (word_of_int (atoi s), word_of_int (atoi s))
                      else (start1, end1)))
      in dump_loop start end raw trace out)"

definition dump_header :: string where
  "dump_header =
     ''global_time thread_time tid reason entry/exit '' @
     ''hw_interrupts page_faults adapted_rbc instructions '' @
     ''eax ebx ecx edx esi edi ebp orig_eax esp eip eflags'' @ [CHR 0x0A]"

fun dump_specs :: "bool \<Rightarrow> trace_ifstream \<Rightarrow> out_item list \<Rightarrow> string list
    \<Rightarrow> trace_ifstream \<times> out_item list" where
  \<comment> \<open>The \<open>for (int i = 1; i < argc; ++i)\<close> loop of \<open>start_dumping\<close>, over
     \<open>argv[1]\<close> .. \<open>argv[argc - 1]\<close>.\<close>
  "dump_specs raw trace out [] = (trace, out)"
| "dump_specs raw trace out (spec # specs) =
     (case dump_events_matching raw trace out (Some spec) of
        (trace', out') \<Rightarrow> dump_specs raw trace' out' specs)"

definition start_dumping :: "bool \<Rightarrow> trace_ifstream \<Rightarrow> string list \<Rightarrow> out_item list" where
  \<comment> \<open>\<open>argv\<close> is the positional part of the command line (\<open>argc\<close> is its length):
     the trace directory, then the event specs.  The second argument is the stream that
     \<open>TraceIfstream::open(argc, argv)\<close> returns.\<close>
  "start_dumping raw trace argv =
     (let out = [Text dump_header]
      in if length argv = 1
         then snd (dump_events_matching raw trace out None)
         else snd (dump_specs raw trace out (drop 1 argv)))"

fun dumped_frames :: "out_item list \<Rightarrow> trace_frame list" where
  \<comment> \<open>The frames an output holds, in the order they were dumped.\<close>
  "dumped_frames [] = []"
| "dumped_frames (Text _ # out) = dumped_frames out"
| "dumped_frames (Frame_dump frame _ # out) = frame # dumped_frames out"

definition in_range :: "u32 \<Rightarrow> u32 \<Rightarrow> trace_frame \<Rightarrow> bool" where
  "in_range a b frame = (a \<le> global_time frame \<and> global_time frame \<le> b)"

definition increasing :: "trace_frame list \<Rightarrow> bool" where
  \<comment> \<open>The spec's invariant of a Trace: \<open>global_time\<close> strictly increases.\<close>
  "increasing trace = sorted_wrt (<) (map global_time trace)"

section \<open>The process\<close>

text \<open>
  \<open>main\<close> acts on its environment and ends the process.  A run is the list of its
  actions, in order, and how the process ended.  \<open>FATAL()\<close> (\<open>log.h\<close>, not among the
  sources) ends the process abnormally: the outcome \<open>Fatal\<close>.  Messages to the log and
  to stderr are left out, the usage text and the governor warning apart.  The session is
  started with \<open>argv[0]\<close> and the elements from \<open>argi\<close> on of \<open>argv\<close> as the parsers
  left it.

  \<open>record\<close> and \<open>replay\<close> are not among the sources: a session is one action, and the
  environment says whether the session returns to \<open>main\<close> (\<open>session_end\<close> is \<open>None\<close>) or
  ends the process itself.
\<close>

datatype outcome = Exit int | Fatal | Undefined

datatype action =
  Print_usage
| Governor_warning string
| Nanosleep int
| Sched_setaffinity_cpu0
| Setenv_syscallbuf_enabled
| Unsetenv_syscallbuf_enabled
| Record_session flags string "string list"
| Replay_session flags "string list"
| Dump_session "out_item list"

type_synonym proc = "action list \<times> outcome option"

definition proceed :: proc where "proceed = ([], None)"
definition stop :: "outcome \<Rightarrow> proc" where "stop out = ([], Some out)"
definition act :: "action \<Rightarrow> proc" where "act a = ([a], None)"

definition seq :: "proc \<Rightarrow> proc \<Rightarrow> proc" where
  \<comment> \<open>One statement after another: the second runs unless the first ended the
     process.\<close>
  "seq p q = (case snd p of Some out \<Rightarrow> p | None \<Rightarrow> (fst p @ fst q, snd q))"

datatype governor_file = No_file | Read_error | Contents string

text \<open>
  What the process reads from the system: the contents of
  \<open>/proc/sys/kernel/yama/ptrace_scope\<close> (\<open>None\<close> when it cannot be opened); the numbers
  that \<open>stream >> major >> dot >> minor\<close> reads from the release string of \<open>uname\<close>
  (\<open>None\<close> when \<open>uname\<close> fails); the bytes read from cpu0's \<open>scaling_governor\<close>; the
  values that \<open>nanosleep_nointr\<close> and \<open>sched_setaffinity\<close> return; the path of the
  executable and which paths \<open>access\<close> finds; the stream that \<open>TraceIfstream::open\<close>
  returns.
\<close>

record env =
  ptrace_scope_file :: "string option"
  uname_release :: "(u32 \<times> u32) option"
  scaling_governor :: governor_file
  nanosleep_nointr :: int
  sched_setaffinity :: int
  exe_path :: string
  access_ok :: "string \<Rightarrow> bool"
  trace_open :: trace_ifstream
  session_end :: "outcome option"

definition start :: "env \<Rightarrow> flags \<Rightarrow> string \<Rightarrow> string list \<Rightarrow> proc" where
  "start env flags rr_exe argv =
     (case option flags of
        RECORD \<Rightarrow> ([Record_session flags rr_exe argv], session_end env)
      | REPLAY \<Rightarrow> ([Replay_session flags argv], session_end env)
      | DUMP_EVENTS \<Rightarrow> act (Dump_session (start_dumping (raw_dump flags) (trace_open env) argv))
      | INVALID \<Rightarrow> stop Fatal)"

definition read_int_file :: "string option \<Rightarrow> outcome + int" where
  \<comment> \<open>\<open>fscanf(inf, "%d", &val)\<close> assigns one item when the file starts with a number.\<close>
  "read_int_file file =
     (case file of
        None \<Rightarrow> Inr (- 1)
      | Some contents \<Rightarrow>
          (case scan_int contents of
             None \<Rightarrow> Inl Fatal
           | Some (neg, m, _) \<Rightarrow> Inr (conv_d neg m)))"

definition KERNEL_VERSION :: "u32 \<Rightarrow> u32 \<Rightarrow> u32 \<Rightarrow> u32" where
  \<comment> \<open>\<open>linux/version.h\<close>: \<open>(((a) << 16) + ((b) << 8) + (c))\<close>, on \<open>unsigned int\<close>.\<close>
  "KERNEL_VERSION a b c = push_bit 16 a + push_bit 8 b + c"

definition assert_prerequisites :: "env \<Rightarrow> flags \<Rightarrow> proc" where
  "assert_prerequisites env flags =
     (case read_int_file (ptrace_scope_file env) of
        Inl out \<Rightarrow> stop out
      | Inr ptrace_scope_val \<Rightarrow>
          if ptrace_scope_val > 0 then stop Fatal
          else (case uname_release env of
                  None \<Rightarrow> proceed
                | Some (major, minor) \<Rightarrow>
                    if KERNEL_VERSION major minor 0 < KERNEL_VERSION 3 4 0 then stop Fatal
                    else if use_syscall_buffer flags \<and>
                            KERNEL_VERSION major minor 0 < KERNEL_VERSION 3 5 0
                    then stop Fatal
                    else proceed))"

definition check_performance_settings :: "env \<Rightarrow> proc" where
  "check_performance_settings env =
     (case scaling_governor env of
        No_file \<Rightarrow> proceed
      | Read_error \<Rightarrow> stop Fatal
      | Contents buf \<Rightarrow>
          (let governor = butlast (takeWhile (\<lambda>c. c \<noteq> CHR 0x00) buf)
           in if governor \<noteq> ''performance'' then act (Governor_warning governor)
              else proceed))"

text \<open>
  \<open>find_syscall_buffer_library\<close> chops the file name off the path of the executable
  (everything after the last \<open>/\<close>) and appends \<open>../lib/\<close> and the library's name.
\<close>

definition find_syscall_buffer_library :: "constants \<Rightarrow> env \<Rightarrow> string" where
  "find_syscall_buffer_library k env =
     (let lib_path = rev (dropWhile (\<lambda>c. c \<noteq> CHR ''/'') (rev (exe_path env))) @
                     ''../lib/'' @ SYSCALLBUF_LIB_FILENAME k
      in if \<not> access_ok env lib_path then SYSCALLBUF_LIB_FILENAME k else lib_path)"

definition EX_CONFIG :: int where "EX_CONFIG = 78"

definition main :: "constants \<Rightarrow> env \<Rightarrow> string list \<Rightarrow> proc" where
  "main k env argv =
     (let argc = int (length argv)
      in if argc \<ge> 2 \<and> argv ! 1 = ''check-preload-lib'' then stop (Exit EX_CONFIG)
         else (case parse_args k argv flags_zero of
                 None \<Rightarrow> stop Undefined
               | Some (argi, flags, argv') \<Rightarrow>
                   if 0 > argi \<or> argc < argi \<or> (REPLAY \<noteq> option flags \<and> argc \<le> argi)
                   then seq (act Print_usage) (stop (Exit 1))
                   else
                     seq (assert_prerequisites env flags)
                    (seq (if \<not> suppress_performance_warnings flags
                          then check_performance_settings env else proceed)
                    (seq (if wait_secs flags > 0
                          then seq (act (Nanosleep (wait_secs flags)))
                                 (if nanosleep_nointr env \<noteq> 0 then stop Fatal else proceed)
                          else proceed)
                    (seq (if \<not> cpu_unbound flags
                          then seq (act Sched_setaffinity_cpu0)
                                 (if 0 > sched_setaffinity env then stop Fatal else proceed)
                          else proceed)
                    (seq (if RECORD = option flags
                          then (if use_syscall_buffer flags then act Setenv_syscallbuf_enabled
                                else act Unsetenv_syscallbuf_enabled)
                          else proceed)
                    (seq (start env
                            (if RECORD = option flags
                             then flags\<lparr>syscall_buffer_lib_path :=
                                          find_syscall_buffer_library k env\<rparr>
                             else flags)
                            (argv' ! 0) (drop (nat argi) argv'))
                         (stop (Exit 0)))))))))"



section \<open>The vocabulary of the properties\<close>

text \<open>
  A frame with a given \<open>global_time\<close> and zero in every other field, for the examples.
\<close>

definition frame_at :: "u32 \<Rightarrow> trace_frame" where
  "frame_at t = \<lparr>global_time = t, thread_time = 0, tid = 0, reason = 0, entry_exit = 0,
     hw_interrupts = 0, page_faults = 0, adapted_rbc = 0, instructions = 0,
     recorded_regs = \<lparr>eax = 0, ebx = 0, ecx = 0, edx = 0, esi = 0, edi = 0, ebp = 0,
       orig_eax = 0, esp = 0, eip = 0, eflags = 0\<rparr>\<rparr>"

fun dec :: "nat \<Rightarrow> string" where
  \<comment> \<open>A number in decimal, as a spec \<open>a-b\<close> writes its bounds.\<close>
  "dec n = (if n < 10 then [char_of (48 + n)] else dec (n div 10) @ [char_of (48 + n mod 10)])"

declare dec.simps [simp del]

definition range_spec :: "u32 \<Rightarrow> u32 \<Rightarrow> string" where
  \<comment> \<open>The spec \<open>a-b\<close>.\<close>
  "range_spec a b = dec (unat a) @ CHR ''-'' # dec (unat b)"

text \<open>
  To say that an option was given, the scans of \<open>getopt_long\<close> are named:
  \<open>common_options\<close> are the options that \<open>parse_common_args\<close> is returned, with their
  arguments and in order; \<open>command_index\<close> is where that scan ends, the index of the
  command word; \<open>record_options\<close>, \<open>replay_options\<close> and \<open>dump_options\<close> are the options
  returned to the parser of the command, whose scan starts after the command word.
  \<open>apply_options\<close> runs the cases of a \<open>switch\<close> over such a list, and \<open>last_arg\<close> is
  the argument of the last occurrence of an option.
\<close>

fun apply_options :: "(char \<Rightarrow> string \<Rightarrow> flags \<Rightarrow> flags option) \<Rightarrow> (char \<times> string) list
    \<Rightarrow> flags \<Rightarrow> flags option" where
  "apply_options cases [] flags = Some flags"
| "apply_options cases ((c, optarg) # given) flags =
     (case cases c optarg flags of
        None \<Rightarrow> None
      | Some flags' \<Rightarrow> apply_options cases given flags')"

fun last_arg :: "char \<Rightarrow> (char \<times> string) list \<Rightarrow> string option" where
  "last_arg c [] = None"
| "last_arg c ((c', optarg) # given) =
     (case last_arg c given of
        Some s \<Rightarrow> Some s
      | None \<Rightarrow> if c' = c then Some optarg else None)"

definition common_scan :: "string list
    \<Rightarrow> (char \<times> string) list \<times> getopt_state \<times> string list" where
  "common_scan argv = getopt_seq argv ''+c:d:fkmst:uvw:'' common_opts getopt_initial"

definition common_options :: "string list \<Rightarrow> (char \<times> string) list" where
  "common_options argv = fst (common_scan argv)"

definition command_index :: "string list \<Rightarrow> nat" where
  "command_index argv = optind (fst (snd (common_scan argv)))"

definition command_options :: "string \<Rightarrow> option_table \<Rightarrow> string list \<Rightarrow> (char \<times> string) list" where
  "command_options optstring opts argv =
     fst (getopt_seq (snd (snd (common_scan argv))) optstring opts
            ((fst (snd (common_scan argv)))\<lparr>optind := command_index argv + 1\<rparr>))"

definition record_options :: "string list \<Rightarrow> (char \<times> string) list" where
  "record_options = command_options ''+c:be:i:n'' record_opts"

definition replay_options :: "string list \<Rightarrow> (char \<times> string) list" where
  "replay_options = command_options ''+af:g:p:qs:x:'' replay_opts"

definition dump_options :: "string list \<Rightarrow> (char \<times> string) list" where
  "dump_options = command_options ''r'' dump_opts"

definition defaults :: "constants \<Rightarrow> flags \<Rightarrow> flags" where
  \<comment> \<open>The flags after the assignments at the start of \<open>parse_args\<close>.\<close>
  "defaults k flags0 =
     flags0\<lparr>max_rbc := DEFAULT_MAX_RBC k, max_events := DEFAULT_MAX_EVENTS k,
            checksum := CHECKSUM_NONE k, dbgport := - 1, dump_at := DUMP_AT_NONE k,
            dump_on := DUMP_ON_NONE k, redirect := True, use_syscall_buffer := True,
            suppress_performance_warnings := False\<rparr>"

definition example_constants :: constants where
  \<comment> \<open>Values of the constants for the examples.\<close>
  "example_constants = \<lparr>DEFAULT_MAX_RBC = 250000, DEFAULT_MAX_EVENTS = 10, CHECKSUM_NONE = - 3,
     CHECKSUM_SYSCALL = - 2, CHECKSUM_ALL = - 1, DUMP_AT_NONE = - 1, DUMP_ON_NONE = - 1000,
     NSIG = 65, GOTO_EVENT_MAX = 4294967295, SYSCALLBUF_LIB_FILENAME = ''librrpreload.so''\<rparr>"

text \<open>
  \<open>is_session\<close> holds of the actions that are a recording, a replay or a dump.
  \<open>pinned_first\<close> holds of a run in which no session comes before the call of
  \<open>sched_setaffinity\<close>.  The steps of \<open>main\<close> after the command line is parsed are named
  for the proofs: \<open>perf_step\<close>, \<open>wait_step\<close> and \<open>session_steps\<close> (the pinning, the
  environment variable of the syscall buffer, the session and \<open>return 0\<close>).
  \<open>preload_check\<close> and \<open>usage_error\<close> are the two early exits of \<open>main\<close>.
\<close>

fun is_session :: "action \<Rightarrow> bool" where
  "is_session (Record_session flags rr_exe argv) = True"
| "is_session (Replay_session flags argv) = True"
| "is_session (Dump_session out) = True"
| "is_session a = False"

fun pinned_first :: "action list \<Rightarrow> bool" where
  "pinned_first [] = True"
| "pinned_first (a # as) =
     (if a = Sched_setaffinity_cpu0 then True
      else if is_session a then False
      else pinned_first as)"

definition quiet :: "proc \<Rightarrow> bool" where
  "quiet p = (\<forall>a \<in> set (fst p). \<not> is_session a \<and> a \<noteq> Sched_setaffinity_cpu0 \<and> a \<noteq> Print_usage)"

definition perf_step :: "env \<Rightarrow> flags \<Rightarrow> proc" where
  "perf_step env flags =
     (if \<not> suppress_performance_warnings flags then check_performance_settings env else proceed)"

definition wait_step :: "env \<Rightarrow> flags \<Rightarrow> proc" where
  "wait_step env flags =
     (if wait_secs flags > 0
      then seq (act (Nanosleep (wait_secs flags)))
             (if nanosleep_nointr env \<noteq> 0 then stop Fatal else proceed)
      else proceed)"

definition session_steps :: "constants \<Rightarrow> env \<Rightarrow> flags \<Rightarrow> string list \<Rightarrow> int \<Rightarrow> proc" where
  "session_steps k env flags argv argi =
     seq (if \<not> cpu_unbound flags
          then seq (act Sched_setaffinity_cpu0)
                 (if 0 > sched_setaffinity env then stop Fatal else proceed)
          else proceed)
    (seq (if RECORD = option flags
          then (if use_syscall_buffer flags then act Setenv_syscallbuf_enabled
                else act Unsetenv_syscallbuf_enabled)
          else proceed)
    (seq (start env
            (if RECORD = option flags
             then flags\<lparr>syscall_buffer_lib_path := find_syscall_buffer_library k env\<rparr>
             else flags)
            (argv ! 0) (drop (nat argi) argv))
         (stop (Exit 0))))"

definition preload_check :: "string list \<Rightarrow> bool" where
  "preload_check argv = (2 \<le> length argv \<and> argv ! 1 = ''check-preload-lib'')"

definition usage_error :: "string list \<Rightarrow> int \<Rightarrow> flags \<Rightarrow> bool" where
  "usage_error argv argi flags =
     (0 > argi \<or> int (length argv) < argi \<or> (REPLAY \<noteq> option flags \<and> int (length argv) \<le> argi))"

text \<open>
  A kernel version \<open>major.minor\<close> is below \<open>a.b\<close> in the order of version numbers.  A
  prerequisite is unmet when \<open>ptrace_scope\<close> is greater than 0, or the kernel is below
  3.4, or the syscall buffer is enabled and the kernel is below 3.5; the minor number is
  one that the 8-bit field of \<open>KERNEL_VERSION\<close> holds.
\<close>

definition version_below :: "u32 \<Rightarrow> u32 \<Rightarrow> nat \<Rightarrow> nat \<Rightarrow> bool" where
  "version_below major minor a b = (unat major < a \<or> (unat major = a \<and> unat minor < b))"

definition prerequisite_unmet :: "env \<Rightarrow> flags \<Rightarrow> bool" where
  "prerequisite_unmet env flags =
     ((case read_int_file (ptrace_scope_file env) of Inl _ \<Rightarrow> False | Inr v \<Rightarrow> 0 < v) \<or>
      (case uname_release env of
         None \<Rightarrow> False
       | Some (major, minor) \<Rightarrow>
           unat minor < 256 \<and>
           (version_below major minor 3 4 \<or>
            use_syscall_buffer flags \<and> version_below major minor 3 5)))"

text \<open>An environment in which every prerequisite is met, for the examples.\<close>

definition example_env :: env where
  "example_env = \<lparr>ptrace_scope_file = Some (''0'' @ [CHR 0x0A]),
     uname_release = Some (3, 13),
     scaling_governor = Contents (''performance'' @ [CHR 0x0A]),
     nanosleep_nointr = 0, sched_setaffinity = 0, exe_path = ''/usr/bin/rr'',
     access_ok = (\<lambda>path. True),
     trace_open = [frame_at 10, frame_at 20, frame_at 30],
     session_end = None\<rparr>"

datatype form = Raw | Human_readable

datatype field_value = U32 u32 | Int32 int

record frame_line =
  line_form :: form
  line_fields :: "(string \<times> field_value) list"

text \<open>
  Modelled from the spec: \<open>trace_frame::dump\<close> (\<open>trace.cc\<close>, not among the sources),
  which \<open>dump_events_matching\<close> calls for every matching frame.  By the spec's dump
  interface it produces one line holding \<open>global_time\<close>, \<open>thread_time\<close>, \<open>tid\<close>,
  \<open>reason\<close>, entry/exit, the hardware-interrupt count, the page-fault count, the adapted
  retired-conditional-branch count, the instruction count and the full register
  snapshot, in raw or in human-readable form.  The fields are named as the columns of
  the header that \<open>start_dumping\<close> prints, the registers in the header's order.
\<close>

definition trace_frame_dump :: "trace_frame \<Rightarrow> bool \<Rightarrow> frame_line" where
  "trace_frame_dump frame raw =
     \<lparr>line_form = (if raw then Raw else Human_readable),
      line_fields =
        [(''global_time'', U32 (global_time frame)),
         (''thread_time'', U32 (thread_time frame)),
         (''tid'', Int32 (tid frame)),
         (''reason'', Int32 (reason frame)),
         (''entry/exit'', Int32 (entry_exit frame)),
         (''hw_interrupts'', Int32 (hw_interrupts frame)),
         (''page_faults'', Int32 (page_faults frame)),
         (''adapted_rbc'', Int32 (adapted_rbc frame)),
         (''instructions'', Int32 (instructions frame)),
         (''eax'', U32 (eax (recorded_regs frame))),
         (''ebx'', U32 (ebx (recorded_regs frame))),
         (''ecx'', U32 (ecx (recorded_regs frame))),
         (''edx'', U32 (edx (recorded_regs frame))),
         (''esi'', U32 (esi (recorded_regs frame))),
         (''edi'', U32 (edi (recorded_regs frame))),
         (''ebp'', U32 (ebp (recorded_regs frame))),
         (''orig_eax'', U32 (orig_eax (recorded_regs frame))),
         (''esp'', U32 (esp (recorded_regs frame))),
         (''eip'', U32 (eip (recorded_regs frame))),
         (''eflags'', U32 (eflags (recorded_regs frame)))]\<rparr>"

fun frame_lines :: "out_item list \<Rightarrow> frame_line list" where
  \<comment> \<open>The frame lines of an output, in order.\<close>
  "frame_lines [] = []"
| "frame_lines (Text _ # out) = frame_lines out"
| "frame_lines (Frame_dump frame raw # out) = trace_frame_dump frame raw # frame_lines out"

fun split_words :: "string \<Rightarrow> string \<Rightarrow> string list" where
  \<comment> \<open>The words of a text, separated by spaces and newlines; the first argument is
     the word being read.\<close>
  "split_words word [] = (if word = [] then [] else [word])"
| "split_words word (c # cs) =
     (if c = CHR '' '' \<or> c = CHR 0x0A
      then (if word = [] then split_words [] cs else word # split_words [] cs)
      else split_words (word @ [c]) cs)"

definition header_columns :: "string list" where
  "header_columns = split_words [] dump_header"

section \<open>Properties of dumping\<close>

lemma dumped_frames_append [simp]:
  "dumped_frames (xs @ ys) = dumped_frames xs @ dumped_frames ys"
  by (induction xs rule: dumped_frames.induct) auto

lemma dumped_frames_map [simp]: "dumped_frames (map (\<lambda>f. Frame_dump f raw) fs) = fs"
  by (induction fs) auto

lemma dump_loop_sorted:
  assumes "sorted (map global_time trace)"
  shows "snd (dump_loop lo hi raw trace out) =
         out @ map (\<lambda>f. Frame_dump f raw) (filter (in_range lo hi) trace)"
  using assms
proof (induction trace arbitrary: out)
  case Nil
  then show ?case by simp
next
  case (Cons frame trace)
  have fr: "in_range lo hi frame \<longleftrightarrow>
            lo \<le> global_time frame \<and> global_time frame \<le> hi"
    by (simp add: in_range_def)
  show ?case
  proof (cases "hi < global_time frame")
    case True
    have "\<forall>f \<in> set trace. hi < global_time f"
      using Cons.prems True by auto
    then have "filter (in_range lo hi) trace = []"
      by (auto simp: in_range_def filter_empty_conv)
    moreover have "\<not> in_range lo hi frame"
      using True by (simp add: in_range_def not_le)
    ultimately show ?thesis
      using True by simp
  next
    case False
    moreover have "sorted (map global_time trace)"
      using Cons.prems by simp
    ultimately show ?thesis
      using Cons.IH by (simp add: fr)
  qed
qed

lemma increasing_sorted: "increasing trace \<Longrightarrow> sorted (map global_time trace)"
  unfolding increasing_def by (induction trace) (auto simp: less_imp_le)

lemma increasing_unique:
  "increasing trace \<Longrightarrow> f \<in> set trace \<Longrightarrow>
   filter (\<lambda>x. global_time x = global_time f) trace = [f]"
  unfolding increasing_def
  by (induction trace) (auto simp: filter_empty_conv)

lemma dump_no_spec:
  "dump_events_matching raw trace out None = dump_loop 0 (- 1) raw trace out"
  by (simp add: dump_events_matching_def)

lemma dump_all:
  "snd (dump_loop 0 (- 1) raw trace out) = out @ map (\<lambda>f. Frame_dump f raw) trace"
  by (induction trace arbitrary: out) (auto simp: not_less)

lemma spec_127:
  "dump_events_matching raw trace out (Some ''127'') = dump_loop 127 127 raw trace out"
  by (simp add: dump_events_matching_def sscanf_u_dash_u_def atoi_def scan_int_def
      isspace_c_def isdigit_c_def digit_val_def conv_u_def conv_d_def INT_MAX_def)

lemma spec_1000_5000:
  "dump_events_matching raw trace out (Some ''1000-5000'') = dump_loop 1000 5000 raw trace out"
  by (simp add: dump_events_matching_def sscanf_u_dash_u_def scan_int_def
      isspace_c_def isdigit_c_def digit_val_def conv_u_def)

text \<open>
  C1.  On a trace whose \<open>global_time\<close> values strictly increase, the dump with the one
  spec \<open>127\<close> writes the header and then exactly the frames whose \<open>global_time\<close> is 127:
  the one such frame when the trace has one.  With the one spec \<open>1000-5000\<close> it writes
  the header and then every frame whose \<open>global_time\<close> lies in the inclusive interval
  from 1000 to 5000, in trace order, and no other frame.
\<close>

theorem dump_number_and_range:
  assumes "increasing trace"
  shows "start_dumping raw trace [dir, ''127''] =
           Text dump_header #
           map (\<lambda>f. Frame_dump f raw) (filter (\<lambda>f. global_time f = 127) trace) \<and>
         (\<forall>f. f \<in> set trace \<and> global_time f = 127 \<longrightarrow>
            dumped_frames (start_dumping raw trace [dir, ''127'']) = [f]) \<and>
         start_dumping raw trace [dir, ''1000-5000''] =
           Text dump_header #
           map (\<lambda>f. Frame_dump f raw) (filter (in_range 1000 5000) trace)"
proof -
  have srt: "sorted (map global_time trace)"
    using assms by (rule increasing_sorted)
  have eq: "in_range 127 127 = (\<lambda>f. global_time f = 127)"
    by (auto simp: in_range_def fun_eq_iff)
  have one: "start_dumping raw trace [dir, ''127''] =
      Text dump_header #
      map (\<lambda>f. Frame_dump f raw) (filter (\<lambda>f. global_time f = 127) trace)"
    using dump_loop_sorted [OF srt, of 127 127 raw "[Text dump_header]"]
    by (simp add: start_dumping_def spec_127 eq)
  have two: "start_dumping raw trace [dir, ''1000-5000''] =
      Text dump_header # map (\<lambda>f. Frame_dump f raw) (filter (in_range 1000 5000) trace)"
    using dump_loop_sorted [OF srt, of 1000 5000 raw "[Text dump_header]"]
    by (simp add: start_dumping_def spec_1000_5000)
  have uniq: "dumped_frames (start_dumping raw trace [dir, ''127'']) = [f]"
    if "f \<in> set trace" "global_time f = 127" for f
    using increasing_unique [OF assms that(1)] that(2) by (simp add: one)
  show ?thesis
    using one two uniq by blast
qed

theorem dump_number_and_range_witness:
  "increasing (map frame_at [5, 127, 1000, 3000, 5000, 5001]) \<and>
   dumped_frames (start_dumping False (map frame_at [5, 127, 1000, 3000, 5000, 5001])
     [''trace'', ''127'']) = [frame_at 127] \<and>
   dumped_frames (start_dumping False (map frame_at [5, 127, 1000, 3000, 5000, 5001])
     [''trace'', ''1000-5000'']) = map frame_at [1000, 3000, 5000]"
proof -
  have inc: "increasing (map frame_at [5, 127, 1000, 3000, 5000, 5001])"
    by (simp add: increasing_def frame_at_def)
  from dump_number_and_range [OF inc, of False "''trace''"] inc
  show ?thesis
    by (simp add: in_range_def frame_at_def)
qed

text \<open>
  C2.  The specs \<open>1-2\<close> and \<open>3-4\<close> describe disjoint, increasing sets of events, and the
  frames at 1, 2, 3 and 4 of the trace below match one of them.  The dump writes the
  frames at 1, 2 and 4: the scan for \<open>1-2\<close> stops after it has read the frame at 3,
  the first one beyond its range, and the scan for \<open>3-4\<close> starts at the frame after it.
\<close>

theorem dump_adjacent_specs_skip_frame:
  "dumped_frames (start_dumping False (map frame_at [1, 2, 3, 4, 5])
     [''trace'', ''1-2'', ''3-4'']) = map frame_at [1, 2, 4] \<and>
   filter (\<lambda>f. in_range 1 2 f \<or> in_range 3 4 f) (map frame_at [1, 2, 3, 4, 5]) =
     map frame_at [1, 2, 3, 4]"
  by (simp add: start_dumping_def dump_events_matching_def sscanf_u_dash_u_def scan_int_def
      isspace_c_def isdigit_c_def digit_val_def conv_u_def frame_at_def in_range_def)

text \<open>How \<open>sscanf\<close> reads a spec \<open>a-b\<close> written in decimal.\<close>

lemma digit_char:
  "d < 10 \<Longrightarrow> isdigit_c (char_of (48 + d)) \<and> digit_val (char_of (48 + d)) = d"
  by (simp add: isdigit_c_def digit_val_def)

lemma dec_nonempty: "dec n \<noteq> []"
  by (subst dec.simps) simp

lemma dec_digits: "c \<in> set (dec n) \<Longrightarrow> isdigit_c c"
proof (induction n arbitrary: c rule: dec.induct)
  case (1 n)
  show ?case
  proof (cases "n < 10")
    case True
    with "1.prems" show ?thesis
      by (subst (asm) dec.simps) (simp add: digit_char)
  next
    case False
    have "n mod 10 < 10" by simp
    then have "isdigit_c (char_of (48 + n mod 10))"
      using digit_char by blast
    with False "1.prems" "1.IH" show ?thesis
      by (subst (asm) dec.simps) auto
  qed
qed

lemma dec_val_append: "dec_val acc (xs @ ys) = dec_val (dec_val acc xs) ys"
  by (induction xs arbitrary: acc) auto

lemma dec_val_dec: "dec_val 0 (dec n) = n"
proof (induction n rule: dec.induct)
  case (1 n)
  show ?case
  proof (cases "n < 10")
    case True
    then show ?thesis
      by (subst dec.simps) (simp add: digit_char)
  next
    case False
    have "n mod 10 < 10" by simp
    then have "digit_val (char_of (48 + n mod 10)) = n mod 10"
      using digit_char by blast
    with False "1.IH" show ?thesis
      by (subst dec.simps) (simp add: dec_val_append)
  qed
qed

lemma digit_not_space:
  "isdigit_c c \<Longrightarrow> \<not> isspace_c c \<and> c \<noteq> CHR ''-'' \<and> c \<noteq> CHR ''+''"
  by (auto simp: isdigit_c_def isspace_c_def)

lemma scan_int_dec:
  assumes "rest = [] \<or> \<not> isdigit_c (hd rest)"
  shows "scan_int (dec n @ rest) = Some (False, n, rest)"
proof -
  obtain c cs where d: "dec n = c # cs"
    using dec_nonempty [of n] by (cases "dec n") auto
  have dig: "\<forall>x \<in> set (dec n). isdigit_c x"
    using dec_digits by blast
  then have c: "isdigit_c c" using d by simp
  have sp: "dropWhile isspace_c (dec n @ rest) = dec n @ rest"
    using c d digit_not_space by simp
  have r: "takeWhile isdigit_c rest = []" "dropWhile isdigit_c rest = rest"
    using assms by (cases rest; simp)+
  have tw: "takeWhile isdigit_c (dec n @ rest) = dec n"
    using dig r by simp
  have dw: "dropWhile isdigit_c (dec n @ rest) = rest"
    using dig r by simp
  have s2: "(case dec n @ rest of [] \<Rightarrow> []
             | c # r \<Rightarrow> if c = CHR ''-'' \<or> c = CHR ''+'' then r else dec n @ rest) =
            dec n @ rest"
    using c d digit_not_space by simp
  have ng: "(case dec n @ rest of [] \<Rightarrow> False | c # _ \<Rightarrow> c = CHR ''-'') = False"
    using c d digit_not_space by simp
  show ?thesis
    unfolding scan_int_def Let_def sp s2 ng tw dw
    by (simp add: dec_nonempty dec_val_dec)
qed

lemma conv_u_unat: "conv_u False (unat (w::u32)) = w"
proof -
  have "unat w < 2 ^ 32" using unsigned_less [of w] by simp
  then show ?thesis by (simp add: conv_u_def)
qed

lemma sscanf_range_spec: "sscanf_u_dash_u (range_spec a b) s e = (2, a, b)"
proof -
  have 1: "scan_int (dec (unat a) @ CHR ''-'' # dec (unat b)) =
           Some (False, unat a, CHR ''-'' # dec (unat b))"
    by (rule scan_int_dec) (simp add: isdigit_c_def)
  have 2: "scan_int (dec (unat b)) = Some (False, unat b, [])"
    using scan_int_dec [of "[]" "unat b"] by simp
  show ?thesis
    by (simp add: sscanf_u_dash_u_def range_spec_def 1 2 conv_u_unat)
qed

lemma dump_range_spec:
  "dump_events_matching raw trace out (Some (range_spec a b)) = dump_loop a b raw trace out"
  by (simp add: dump_events_matching_def sscanf_range_spec)

text \<open>
  C3.  On a trace whose \<open>global_time\<close> values strictly increase, and for bounds
  \<open>a \<le> b\<close> that a \<open>uint32_t\<close> holds: the frames of the dump with no spec, of which
  only those with \<open>global_time\<close> in the inclusive interval from \<open>a\<close> to \<open>b\<close> are
  kept, are the frames of the dump with the one spec \<open>a-b\<close>, in the same order.
\<close>

theorem dump_filter_commutes:
  assumes "increasing trace" and "a \<le> b"
  shows "filter (in_range a b) (dumped_frames (start_dumping raw trace [dir])) =
         dumped_frames (start_dumping raw trace [dir, range_spec a b])"
proof -
  have "dumped_frames (start_dumping raw trace [dir]) = trace"
    by (simp add: start_dumping_def dump_no_spec dump_all)
  moreover have "dumped_frames (start_dumping raw trace [dir, range_spec a b]) =
      filter (in_range a b) trace"
    using dump_loop_sorted [OF increasing_sorted [OF assms(1)], of a b raw "[Text dump_header]"]
    by (simp add: start_dumping_def dump_range_spec)
  ultimately show ?thesis by simp
qed

lemma range_spec_20_40: "range_spec 20 40 = ''20-40''"
proof -
  have "dec 20 = ''20''" "dec 40 = ''40''"
    by code_simp+
  then show ?thesis
    by (simp add: range_spec_def)
qed

theorem dump_filter_commutes_witness:
  "increasing [frame_at 10, frame_at 20, frame_at 30, frame_at 40, frame_at 50] \<and>
   (20 :: u32) \<le> 40 \<and>
   filter (in_range 20 40)
     (dumped_frames (start_dumping True
        [frame_at 10, frame_at 20, frame_at 30, frame_at 40, frame_at 50] [''trace''])) =
     [frame_at 20, frame_at 30, frame_at 40] \<and>
   dumped_frames (start_dumping True
     [frame_at 10, frame_at 20, frame_at 30, frame_at 40, frame_at 50] [''trace'', ''20-40'']) =
     [frame_at 20, frame_at 30, frame_at 40]"
proof -
  let ?trace = "[frame_at 10, frame_at 20, frame_at 30, frame_at 40, frame_at 50]"
  have inc: "increasing ?trace"
    by (simp add: increasing_def frame_at_def)
  have le: "(20 :: u32) \<le> 40"
    by simp
  have all: "dumped_frames (start_dumping True ?trace [''trace'']) = ?trace"
    by (simp add: start_dumping_def dump_no_spec dump_all)
  have flt: "filter (in_range 20 40) ?trace = [frame_at 20, frame_at 30, frame_at 40]"
    by (simp add: in_range_def frame_at_def)
  have c3: "filter (in_range 20 40) (dumped_frames (start_dumping True ?trace [''trace''])) =
      [frame_at 20, frame_at 30, frame_at 40]"
    unfolding all by (rule flt)
  note c4 = dump_filter_commutes [OF inc le, of True "''trace''",
      unfolded range_spec_20_40 c3, symmetric]
  show ?thesis
    by (rule conjI [OF inc conjI [OF le conjI [OF c3 c4]]])
qed

section \<open>The options given on a command line\<close>

lemma getopt_loop_scan:
  assumes "getopt_loop cases argv optstring opts st flags = Some (r, flags', st', argv')"
    and "0 \<le> r"
  shows "snd (getopt_seq argv optstring opts st) = (st', argv') \<and> r = int (optind st') \<and>
         apply_options cases (fst (getopt_seq argv optstring opts st)) flags = Some flags'"
  using assms
proof (induction cases argv optstring opts st flags rule: getopt_loop.induct)
  case (1 cases argv optstring opts st flags)
  obtain ret optarg st1 argv1 where
    g: "getopt_long argv optstring opts st = (ret, optarg, st1, argv1)"
    by (cases "getopt_long argv optstring opts st") auto
  show ?case
  proof (cases ret)
    case Ret_end
    with g "1.prems" show ?thesis
      by (auto simp: getopt_loop.simps [of cases argv optstring opts st]
          getopt_seq.simps [of argv optstring opts st])
  next
    case Ret_undefined
    with g "1.prems" show ?thesis
      by (simp add: getopt_loop.simps [of cases argv optstring opts st])
  next
    case (Ret_opt c)
    show ?thesis
    proof (cases "cases c optarg flags")
      case None
      with g Ret_opt "1.prems" show ?thesis
        by (simp add: getopt_loop.simps [of cases argv optstring opts st])
    next
      case (Some flags1)
      have "getopt_loop cases argv1 optstring opts st1 flags1 = Some (r, flags', st', argv')"
        using g Ret_opt Some "1.prems"(1)
        by (simp add: getopt_loop.simps [of cases argv optstring opts st])
      from "1.IH" [OF g [symmetric] Ret_opt refl refl Some this "1.prems"(2)]
      show ?thesis
        using g Ret_opt Some
        by (auto simp: getopt_seq.simps [of argv optstring opts st] split: prod.splits)
    qed
  qed
qed

text \<open>
  The scan of the common options starts with no element recorded as passed over, and
  such a scan leaves \<open>argv\<close> as it is.
\<close>

lemma getopt_long_first_scan:
  assumes "getopt_long argv optstring longopts st = (ret, oa, st', argv')"
    and "first_nonopt st = last_nonopt st"
  shows "argv' = argv \<and> (ret \<noteq> Ret_end \<longrightarrow> first_nonopt st' = last_nonopt st')"
  using assms
  by (auto simp: getopt_long_def getopt_short_def getopt_longopt_def Let_def
      split: list.splits if_splits prod.splits option.splits has_arg.splits long_lookup.splits)

lemma getopt_seq_first_scan:
  "first_nonopt st = last_nonopt st \<Longrightarrow> snd (snd (getopt_seq argv optstring opts st)) = argv"
proof (induction argv optstring opts st rule: getopt_seq.induct)
  case (1 argv optstring opts st)
  obtain ret optarg st1 argv1 where
    g: "getopt_long argv optstring opts st = (ret, optarg, st1, argv1)"
    by (cases "getopt_long argv optstring opts st") auto
  note k = getopt_long_first_scan [OF g "1.prems"]
  show ?case
  proof (cases ret)
    case (Ret_opt c)
    with k have e: "argv1 = argv" "first_nonopt st1 = last_nonopt st1"
      by simp_all
    from "1.IH" [OF g [symmetric] Ret_opt refl refl e(2)] e(1) g Ret_opt show ?thesis
      by (auto simp: getopt_seq.simps [of argv optstring opts st] split: prod.splits)
  qed (use g k in \<open>simp_all add: getopt_seq.simps [of argv optstring opts st]\<close>)
qed

lemma common_scan_argv: "snd (snd (common_scan argv)) = argv"
  by (simp add: common_scan_def getopt_seq_first_scan getopt_initial_def)

lemma parse_args_success:
  assumes "parse_args k argv flags0 = Some (argi, flags', argv')" and "0 \<le> argi"
  shows "\<exists>f1. apply_options (common_case k) (common_options argv) (defaults k flags0) = Some f1 \<and>
     0 < command_index argv \<and> command_index argv < length argv \<and>
     (argv ! command_index argv = ''record'' \<and>
        apply_options (record_case k) (record_options argv) (f1\<lparr>option := RECORD\<rparr>) = Some flags' \<or>
      argv ! command_index argv = ''replay'' \<and>
        apply_options (replay_case k) (replay_options argv) (f1\<lparr>option := REPLAY\<rparr>) = Some flags' \<or>
      argv ! command_index argv = ''dump'' \<and>
        apply_options dump_case (dump_options argv) (f1\<lparr>option := DUMP_EVENTS\<rparr>) = Some flags')"
proof -
  obtain cmdi f1 st argv1 where
    c: "getopt_loop (common_case k) argv ''+c:d:fkmst:uvw:'' common_opts getopt_initial
          (defaults k flags0) = Some (cmdi, f1, st, argv1)"
    using assms
    by (cases "getopt_loop (common_case k) argv ''+c:d:fkmst:uvw:'' common_opts getopt_initial
          (defaults k flags0)")
      (auto simp: parse_args_def parse_common_args_def defaults_def)
  have rest: "\<not> 0 > cmdi \<and> \<not> (0 = cmdi \<or> cmdi \<ge> int (length argv)) \<and>
    (if argv1 ! nat cmdi = ''record''
     then map_option (\<lambda>(r, f, _, a). (r, f, a))
            (parse_record_args k (nat cmdi) argv1 st (f1\<lparr>option := RECORD\<rparr>))
     else if argv1 ! nat cmdi = ''replay''
     then map_option (\<lambda>(r, f, _, a). (r, f, a))
            (parse_replay_args k (nat cmdi) argv1 st (f1\<lparr>option := REPLAY\<rparr>))
     else if argv1 ! nat cmdi = ''dump''
     then map_option (\<lambda>(r, f, _, a). (r, f, a))
            (parse_dump_args (nat cmdi) argv1 st (f1\<lparr>option := DUMP_EVENTS\<rparr>))
     else Some (- 1, f1, argv1)) = Some (argi, flags', argv')"
    using assms c
    by (auto simp: parse_args_def parse_common_args_def defaults_def Let_def split: if_splits)
  then have pos: "0 \<le> cmdi" by simp
  from getopt_loop_scan [OF c pos]
  have sc: "snd (common_scan argv) = (st, argv1)" "cmdi = int (command_index argv)"
    "apply_options (common_case k) (common_options argv) (defaults k flags0) = Some f1"
    by (simp_all add: common_scan_def common_options_def command_index_def)
  have same: "argv1 = argv"
    using common_scan_argv [of argv] sc(1) by simp
  have idx: "nat cmdi = command_index argv" "0 < command_index argv"
    "command_index argv < length argv"
    using rest sc(2) by auto
  have sub: "apply_options cases (command_options optstring opts argv) f = Some flags'"
    if "map_option (\<lambda>(r, f, _, a). (r, f, a))
          (getopt_loop cases argv1 optstring opts (st\<lparr>optind := nat cmdi + 1\<rparr>) f) =
        Some (argi, flags', argv')" for cases optstring opts f
  proof -
    from that obtain st' where
      "getopt_loop cases argv1 optstring opts (st\<lparr>optind := nat cmdi + 1\<rparr>) f =
       Some (argi, flags', st', argv')"
      by auto
    from getopt_loop_scan [OF this assms(2)] show ?thesis
      by (simp add: command_options_def sc(1) idx(1) [symmetric])
  qed
  show ?thesis
  proof (cases "argv1 ! nat cmdi = ''record''")
    case True
    with rest have "apply_options (record_case k) (record_options argv)
        (f1\<lparr>option := RECORD\<rparr>) = Some flags'"
      unfolding record_options_def parse_record_args_def by (intro sub) simp
    with True sc(3) idx same show ?thesis by auto
  next
    case nrec: False
    show ?thesis
    proof (cases "argv1 ! nat cmdi = ''replay''")
      case True
      with rest nrec have "apply_options (replay_case k) (replay_options argv)
          (f1\<lparr>option := REPLAY\<rparr>) = Some flags'"
        unfolding replay_options_def parse_replay_args_def by (intro sub) simp
      with True sc(3) idx same show ?thesis by auto
    next
      case nrep: False
      show ?thesis
      proof (cases "argv1 ! nat cmdi = ''dump''")
        case True
        with rest nrec nrep have "apply_options dump_case (dump_options argv)
            (f1\<lparr>option := DUMP_EVENTS\<rparr>) = Some flags'"
          unfolding dump_options_def parse_dump_args_def by (intro sub) simp
        with True sc(3) idx same show ?thesis by auto
      next
        case False
        with rest nrec nrep assms(2) show ?thesis by simp
      qed
    qed
  qed
qed


lemma last_arg_None: "last_arg c given = None \<longleftrightarrow> c \<notin> fst ` set given"
  by (induction given) (auto split: option.splits)

lemma apply_options_last:
  assumes "apply_options cases given f = Some f'"
    and upd: "\<And>optarg g g'. cases c optarg g = Some g' \<Longrightarrow> P g' = v optarg"
    and keep: "\<And>c' optarg g g'. c' \<noteq> c \<Longrightarrow> cases c' optarg g = Some g' \<Longrightarrow> P g' = P g"
  shows "P f' = (case last_arg c given of None \<Rightarrow> P f | Some s \<Rightarrow> v s)"
  using assms(1)
proof (induction given arbitrary: f)
  case Nil
  then show ?case by simp
next
  case (Cons x given)
  obtain c' optarg where x: "x = (c', optarg)" by (cases x)
  from Cons.prems x obtain g where
    g: "cases c' optarg f = Some g" and r: "apply_options cases given g = Some f'"
    by (auto split: option.splits)
  note ih = Cons.IH [OF r]
  show ?case
  proof (cases "last_arg c given")
    case (Some s)
    with ih x show ?thesis by simp
  next
    case None
    show ?thesis
    proof (cases "c' = c")
      case True
      with upd g have "P g = v optarg" by simp
      with ih None x True show ?thesis by simp
    next
      case False
      with keep g have "P g = P f" by simp
      with ih None x False show ?thesis by simp
    qed
  qed
qed

lemma apply_options_keep:
  assumes "apply_options cases given f = Some f'"
    and keep: "\<And>c optarg g g'. cases c optarg g = Some g' \<Longrightarrow> P g' = P g"
  shows "P f' = P f"
  using assms(1)
proof (induction given arbitrary: f)
  case Nil
  then show ?case by simp
next
  case (Cons x given)
  obtain c optarg where x: "x = (c, optarg)" by (cases x)
  from Cons.prems x obtain g where
    g: "cases c optarg f = Some g" and r: "apply_options cases given g = Some f'"
    by (auto split: option.splits)
  from Cons.IH [OF r] keep [OF g] show ?case by simp
qed

lemma record_case_max_rbc:
  assumes "apply_options (record_case k) given f = Some f'"
  shows "max_rbc f' = (case last_arg CHR ''c'' given of None \<Rightarrow> max_rbc f | Some s \<Rightarrow> max 1 (atoi s))"
  by (rule apply_options_last [OF assms]) (auto simp: record_case_def split: if_splits)

lemma record_case_max_events:
  assumes "apply_options (record_case k) given f = Some f'"
  shows "max_events f' =
         (case last_arg CHR ''e'' given of None \<Rightarrow> max_events f | Some s \<Rightarrow> max 1 (atoi s))"
  by (rule apply_options_last [OF assms]) (auto simp: record_case_def split: if_splits)

lemma record_case_ignore_sig:
  assumes "apply_options (record_case k) given f = Some f'"
  shows "ignore_sig f' =
         (case last_arg CHR ''i'' given of None \<Rightarrow> ignore_sig f
          | Some s \<Rightarrow> min (NSIG k - 1) (max 1 (atoi s)))"
  by (rule apply_options_last [OF assms]) (auto simp: record_case_def split: if_splits)

lemma common_case_checksum:
  assumes "apply_options (common_case k) given f = Some f'"
  shows "checksum f' =
         (case last_arg CHR ''c'' given of None \<Rightarrow> checksum f
          | Some s \<Rightarrow> if s = ''on-syscalls'' then CHECKSUM_SYSCALL k
                      else if s = ''on-all-events'' then CHECKSUM_ALL k else atoi s)"
  by (rule apply_options_last [OF assms]) (auto simp: common_case_def split: if_splits)

lemma common_case_cpu_unbound:
  assumes "apply_options (common_case k) given f = Some f'"
  shows "cpu_unbound f' = (case last_arg CHR ''u'' given of None \<Rightarrow> cpu_unbound f | Some s \<Rightarrow> True)"
  by (rule apply_options_last [OF assms]) (auto simp: common_case_def split: if_splits)

lemma dump_case_raw_dump:
  assumes "apply_options dump_case given f = Some f'"
  shows "raw_dump f' = (case last_arg CHR ''r'' given of None \<Rightarrow> raw_dump f | Some s \<Rightarrow> True)"
  by (rule apply_options_last [OF assms]) (auto simp: dump_case_def split: if_splits)

lemma common_case_keeps:
  assumes "apply_options (common_case k) given f = Some f'"
  shows "max_rbc f' = max_rbc f" "max_events f' = max_events f" "ignore_sig f' = ignore_sig f"
    "raw_dump f' = raw_dump f" "use_syscall_buffer f' = use_syscall_buffer f"
    "option f' = option f"
  by (rule apply_options_keep [OF assms]; auto simp: common_case_def split: if_splits)+

lemma record_case_keeps:
  assumes "apply_options (record_case k) given f = Some f'"
  shows "checksum f' = checksum f" "cpu_unbound f' = cpu_unbound f" "option f' = option f"
    "raw_dump f' = raw_dump f" "wait_secs f' = wait_secs f"
    "suppress_performance_warnings f' = suppress_performance_warnings f"
  by (rule apply_options_keep [OF assms]; auto simp: record_case_def split: if_splits)+

lemma replay_case_keeps:
  assumes "apply_options (replay_case k) given f = Some f'"
  shows "checksum f' = checksum f" "cpu_unbound f' = cpu_unbound f" "option f' = option f"
    "raw_dump f' = raw_dump f" "wait_secs f' = wait_secs f"
    "suppress_performance_warnings f' = suppress_performance_warnings f"
    "use_syscall_buffer f' = use_syscall_buffer f"
  by (rule apply_options_keep [OF assms]; auto simp: replay_case_def split: if_splits)+

lemma dump_case_keeps:
  assumes "apply_options dump_case given f = Some f'"
  shows "checksum f' = checksum f" "cpu_unbound f' = cpu_unbound f" "option f' = option f"
    "wait_secs f' = wait_secs f"
    "suppress_performance_warnings f' = suppress_performance_warnings f"
    "use_syscall_buffer f' = use_syscall_buffer f"
  by (rule apply_options_keep [OF assms]; auto simp: dump_case_def split: if_splits)+

lemma parse_args_record:
  assumes "parse_args k argv flags0 = Some (argi, flags', argv')" and "0 \<le> argi"
    and "option flags' = RECORD"
  shows "\<exists>f1. apply_options (common_case k) (common_options argv) (defaults k flags0) = Some f1 \<and>
     apply_options (record_case k) (record_options argv) (f1\<lparr>option := RECORD\<rparr>) = Some flags'"
proof -
  from parse_args_success [OF assms(1,2)] obtain f1 where
    f1: "apply_options (common_case k) (common_options argv) (defaults k flags0) = Some f1"
    and alt: "apply_options (record_case k) (record_options argv) (f1\<lparr>option := RECORD\<rparr>) =
        Some flags' \<or>
      apply_options (replay_case k) (replay_options argv) (f1\<lparr>option := REPLAY\<rparr>) =
        Some flags' \<or>
      apply_options dump_case (dump_options argv) (f1\<lparr>option := DUMP_EVENTS\<rparr>) = Some flags'"
    by blast
  from alt assms(3) replay_case_keeps(3) dump_case_keeps(3)
  have "apply_options (record_case k) (record_options argv) (f1\<lparr>option := RECORD\<rparr>) =
      Some flags'"
    by fastforce
  with f1 show ?thesis by blast
qed

text \<open>
  C4.  When the command line is parsed as a \<open>record\<close> command, \<open>max_rbc\<close> is the
  default if \<open>-c\<close>/\<open>--num-cpu-ticks\<close> was not given, and otherwise the larger of 1 and
  what \<open>atoi\<close> reads from the argument of its last occurrence; likewise \<open>max_events\<close>
  and \<open>-e\<close>/\<open>--num-events\<close>.  So whatever string is passed to either option, the flag
  is at least 1.
\<close>

theorem record_budgets_at_least_one:
  assumes "parse_args k argv flags0 = Some (argi, flags', argv')" and "0 \<le> argi"
    and "option flags' = RECORD"
  shows "max_rbc flags' =
           (case last_arg CHR ''c'' (record_options argv) of
              None \<Rightarrow> DEFAULT_MAX_RBC k | Some s \<Rightarrow> max 1 (atoi s)) \<and>
         max_events flags' =
           (case last_arg CHR ''e'' (record_options argv) of
              None \<Rightarrow> DEFAULT_MAX_EVENTS k | Some s \<Rightarrow> max 1 (atoi s)) \<and>
         (CHR ''c'' \<in> fst ` set (record_options argv) \<longrightarrow> 1 \<le> max_rbc flags') \<and>
         (CHR ''e'' \<in> fst ` set (record_options argv) \<longrightarrow> 1 \<le> max_events flags')"
proof -
  from parse_args_record [OF assms] obtain f1 where
    f1: "apply_options (common_case k) (common_options argv) (defaults k flags0) = Some f1"
    and r: "apply_options (record_case k) (record_options argv) (f1\<lparr>option := RECORD\<rparr>) =
        Some flags'"
    by blast
  have d: "max_rbc f1 = DEFAULT_MAX_RBC k" "max_events f1 = DEFAULT_MAX_EVENTS k"
    using common_case_keeps(1,2) [OF f1] by (simp_all add: defaults_def)
  have c: "max_rbc flags' =
      (case last_arg CHR ''c'' (record_options argv) of
         None \<Rightarrow> DEFAULT_MAX_RBC k | Some s \<Rightarrow> max 1 (atoi s))"
    using record_case_max_rbc [OF r] d by (simp split: option.splits)
  have e: "max_events flags' =
      (case last_arg CHR ''e'' (record_options argv) of
         None \<Rightarrow> DEFAULT_MAX_EVENTS k | Some s \<Rightarrow> max 1 (atoi s))"
    using record_case_max_events [OF r] d by (simp split: option.splits)
  have c1: "1 \<le> max_rbc flags'" if "CHR ''c'' \<in> fst ` set (record_options argv)"
    using that c last_arg_None [of "CHR ''c''" "record_options argv"]
    by (cases "last_arg CHR ''c'' (record_options argv)") auto
  have e1: "1 \<le> max_events flags'" if "CHR ''e'' \<in> fst ` set (record_options argv)"
    using that e last_arg_None [of "CHR ''e''" "record_options argv"]
    by (cases "last_arg CHR ''e'' (record_options argv)") auto
  show ?thesis
    using c e c1 e1 by blast
qed


text \<open>The definitions that evaluate the parsers on a concrete command line.\<close>

lemmas getopt_eval =
  getopt_loop.simps getopt_seq.simps getopt_long_def getopt_short_def getopt_longopt_def
  exchange_def end_of_scan_def find_long_def skip_order_def getopt_initial_def common_opts_def
  record_opts_def replay_opts_def dump_opts_def

lemmas parse_eval =
  parse_args_def parse_common_args_def parse_record_args_def parse_replay_args_def
  parse_dump_args_def common_case_def record_case_def replay_case_def dump_case_def
  flags_zero_def example_constants_def

lemmas options_eval =
  common_options_def record_options_def replay_options_def dump_options_def
  command_options_def command_index_def common_scan_def

lemmas atoi_eval =
  atoi_def scan_int_def isspace_c_def isdigit_c_def digit_val_def conv_d_def
  INT_MAX_def INT_MIN_def

text \<open>
  With \<open>--\<close> before the command word, the scan of the command's options that reaches
  the end of \<open>argv\<close> returns the index of the command word, whatever options it was
  returned; a second \<open>--\<close> moves the command word behind it.
\<close>

lemma parse_args_double_dash:
  "(\<exists>f. parse_args example_constants [''rr'', ''--'', ''record'', ''-n''] flags_zero =
          Some (2, f, [''rr'', ''--'', ''record'', ''-n'']) \<and> \<not> use_syscall_buffer f) \<and>
   (\<exists>f. parse_args example_constants [''rr'', ''-k'', ''--'', ''replay'', ''-a''] flags_zero =
          Some (3, f, [''rr'', ''-k'', ''--'', ''replay'', ''-a''])) \<and>
   (\<exists>f. parse_args example_constants [''rr'', ''--'', ''record'', ''--'', ''prog''] flags_zero =
          Some (3, f, [''rr'', ''--'', ''--'', ''record'', ''prog''])) \<and>
   (\<exists>f. parse_args example_constants [''rr'', ''record'', ''--'', ''prog''] flags_zero =
          Some (3, f, [''rr'', ''record'', ''--'', ''prog'']))"
  by (intro conjI; simp add: parse_eval getopt_eval)

theorem record_budgets_at_least_one_witness:
  "\<exists>argi flags' argv'.
     parse_args example_constants
       [''rr'', ''record'', ''-c'', ''0'', ''--num-events=-5'', ''prog''] flags_zero =
       Some (argi, flags', argv') \<and>
     0 \<le> argi \<and> option flags' = RECORD \<and>
     record_options [''rr'', ''record'', ''-c'', ''0'', ''--num-events=-5'', ''prog''] =
       [(CHR ''c'', ''0''), (CHR ''e'', ''-5'')] \<and>
     max_rbc flags' = 1 \<and> max_events flags' = 1"
proof -
  let ?argv = "[''rr'', ''record'', ''-c'', ''0'', ''--num-events=-5'', ''prog'']"
  have "\<exists>f. parse_args example_constants ?argv flags_zero = Some (5, f, ?argv) \<and>
      option f = RECORD"
    by (simp add: parse_eval getopt_eval)
  then obtain f where p: "parse_args example_constants ?argv flags_zero = Some (5, f, ?argv)"
    and r: "option f = RECORD"
    by blast
  have ro: "record_options ?argv = [(CHR ''c'', ''0''), (CHR ''e'', ''-5'')]"
    by (simp add: options_eval getopt_eval)
  have "max_rbc f = 1 \<and> max_events f = 1"
    using record_budgets_at_least_one [OF p _ r] by (simp add: ro atoi_eval)
  with p r ro show ?thesis
    by simp
qed

text \<open>
  C9.  When the command line is parsed as a \<open>record\<close> command and
  \<open>-i\<close>/\<open>--ignore-signal\<close> was given, last with the argument \<open>s\<close>, then \<open>ignore_sig\<close>
  is what \<open>atoi\<close> reads from \<open>s\<close>, clamped: at least 1 and at most \<open>_NSIG - 1\<close>,
  whatever the string (\<open>_NSIG\<close> is at least 2: it is 65 on Linux).
\<close>

theorem ignore_sig_clamped:
  assumes "parse_args k argv flags0 = Some (argi, flags', argv')" and "0 \<le> argi"
    and "option flags' = RECORD"
    and "last_arg CHR ''i'' (record_options argv) = Some s"
    and "2 \<le> NSIG k"
  shows "ignore_sig flags' = min (NSIG k - 1) (max 1 (atoi s)) \<and>
         1 \<le> ignore_sig flags' \<and> ignore_sig flags' \<le> NSIG k - 1"
proof -
  from parse_args_record [OF assms(1-3)] obtain f1 where
    r: "apply_options (record_case k) (record_options argv) (f1\<lparr>option := RECORD\<rparr>) =
        Some flags'"
    by blast
  have "ignore_sig flags' = min (NSIG k - 1) (max 1 (atoi s))"
    using record_case_ignore_sig [OF r] assms(4) by simp
  with assms(5) show ?thesis by simp
qed

theorem ignore_sig_clamped_witness:
  "\<exists>argi flags' argv'.
     parse_args example_constants [''rr'', ''record'', ''-i'', ''9999'', ''prog''] flags_zero =
       Some (argi, flags', argv') \<and>
     0 \<le> argi \<and> option flags' = RECORD \<and>
     last_arg CHR ''i'' (record_options [''rr'', ''record'', ''-i'', ''9999'', ''prog'']) =
       Some ''9999'' \<and>
     2 \<le> NSIG example_constants \<and> ignore_sig flags' = 64"
proof -
  let ?argv = "[''rr'', ''record'', ''-i'', ''9999'', ''prog'']"
  have "\<exists>f. parse_args example_constants ?argv flags_zero = Some (4, f, ?argv) \<and>
      option f = RECORD"
    by (simp add: parse_eval getopt_eval)
  then obtain f where p: "parse_args example_constants ?argv flags_zero = Some (4, f, ?argv)"
    and r: "option f = RECORD"
    by blast
  have la: "last_arg CHR ''i'' (record_options ?argv) = Some ''9999''"
    by (simp add: options_eval getopt_eval)
  have n: "2 \<le> NSIG example_constants"
    by (simp add: example_constants_def)
  have "ignore_sig f = 64"
    using ignore_sig_clamped [OF p _ r la n] by (simp add: atoi_eval example_constants_def)
  with p r la n show ?thesis
    by simp
qed

text \<open>
  C6.  After a command line is parsed, \<open>checksum\<close> is \<open>CHECKSUM_NONE\<close> when
  \<open>-c\<close>/\<open>--checksum\<close> was not given among the common options; otherwise the argument
  of its last occurrence decides: \<open>on-syscalls\<close> selects \<open>CHECKSUM_SYSCALL\<close>,
  \<open>on-all-events\<close> selects \<open>CHECKSUM_ALL\<close>, and any other argument is read as an
  integer by \<open>atoi\<close>.
\<close>

theorem checksum_modes:
  assumes "parse_args k argv flags0 = Some (argi, flags', argv')" and "0 \<le> argi"
  shows "checksum flags' =
           (case last_arg CHR ''c'' (common_options argv) of
              None \<Rightarrow> CHECKSUM_NONE k
            | Some s \<Rightarrow> if s = ''on-syscalls'' then CHECKSUM_SYSCALL k
                        else if s = ''on-all-events'' then CHECKSUM_ALL k
                        else atoi s)"
proof -
  from parse_args_success [OF assms] obtain f1 where
    f1: "apply_options (common_case k) (common_options argv) (defaults k flags0) = Some f1"
    and alt: "apply_options (record_case k) (record_options argv) (f1\<lparr>option := RECORD\<rparr>) =
        Some flags' \<or>
      apply_options (replay_case k) (replay_options argv) (f1\<lparr>option := REPLAY\<rparr>) =
        Some flags' \<or>
      apply_options dump_case (dump_options argv) (f1\<lparr>option := DUMP_EVENTS\<rparr>) = Some flags'"
    by blast
  from alt record_case_keeps(1) replay_case_keeps(1) dump_case_keeps(1)
  have "checksum flags' = checksum f1"
    by fastforce
  moreover have "checksum (defaults k flags0) = CHECKSUM_NONE k"
    by (simp add: defaults_def)
  ultimately show ?thesis
    using common_case_checksum [OF f1] by (simp split: option.splits)
qed


theorem checksum_modes_witness:
  "(\<exists>argi flags' argv'.
      parse_args example_constants [''rr'', ''replay''] flags_zero =
        Some (argi, flags', argv') \<and>
      0 \<le> argi \<and> common_options [''rr'', ''replay''] = [] \<and>
      checksum flags' = CHECKSUM_NONE example_constants) \<and>
   (\<exists>argi flags' argv'.
      parse_args example_constants [''rr'', ''-c'', ''on-syscalls'', ''record'', ''prog'']
        flags_zero = Some (argi, flags', argv') \<and>
      0 \<le> argi \<and> checksum flags' = CHECKSUM_SYSCALL example_constants) \<and>
   (\<exists>argi flags' argv'.
      parse_args example_constants [''rr'', ''--checksum=on-all-events'', ''replay'']
        flags_zero = Some (argi, flags', argv') \<and>
      0 \<le> argi \<and> checksum flags' = CHECKSUM_ALL example_constants) \<and>
   (\<exists>argi flags' argv'.
      parse_args example_constants [''rr'', ''-c'', ''1234'', ''replay'']
        flags_zero = Some (argi, flags', argv') \<and>
      0 \<le> argi \<and> checksum flags' = 1234)"
proof -
  let ?a1 = "[''rr'', ''replay'']"
  let ?a2 = "[''rr'', ''-c'', ''on-syscalls'', ''record'', ''prog'']"
  let ?a3 = "[''rr'', ''--checksum=on-all-events'', ''replay'']"
  let ?a4 = "[''rr'', ''-c'', ''1234'', ''replay'']"
  have 1: "\<exists>f. parse_args example_constants ?a1 flags_zero = Some (2, f, ?a1)"
    by (simp add: parse_eval getopt_eval)
  have o1: "common_options ?a1 = []"
    by (simp add: options_eval getopt_eval)
  have 2: "\<exists>f. parse_args example_constants ?a2 flags_zero = Some (4, f, ?a2)"
    by (simp add: parse_eval getopt_eval)
  have o2: "common_options ?a2 = [(CHR ''c'', ''on-syscalls'')]"
    by (simp add: options_eval getopt_eval)
  have 3: "\<exists>f. parse_args example_constants ?a3 flags_zero = Some (3, f, ?a3)"
    by (simp add: parse_eval getopt_eval)
  have o3: "common_options ?a3 = [(CHR ''c'', ''on-all-events'')]"
    by (simp add: options_eval getopt_eval)
  have 4: "\<exists>f. parse_args example_constants ?a4 flags_zero = Some (4, f, ?a4)"
    by (simp add: parse_eval getopt_eval)
  have o4: "common_options ?a4 = [(CHR ''c'', ''1234'')]"
    by (simp add: options_eval getopt_eval)
  have a: "atoi ''1234'' = 1234"
    by (simp add: atoi_eval)
  from 1 obtain f1 where p1: "parse_args example_constants ?a1 flags_zero = Some (2, f1, ?a1)"
    by blast
  from 2 obtain f2 where p2: "parse_args example_constants ?a2 flags_zero = Some (4, f2, ?a2)"
    by blast
  from 3 obtain f3 where p3: "parse_args example_constants ?a3 flags_zero = Some (3, f3, ?a3)"
    by blast
  from 4 obtain f4 where p4: "parse_args example_constants ?a4 flags_zero = Some (4, f4, ?a4)"
    by blast
  have c1: "checksum f1 = CHECKSUM_NONE example_constants"
    using checksum_modes [OF p1] by (simp add: o1)
  have c2: "checksum f2 = CHECKSUM_SYSCALL example_constants"
    using checksum_modes [OF p2] by (simp add: o2)
  have c3: "checksum f3 = CHECKSUM_ALL example_constants"
    using checksum_modes [OF p3] by (simp add: o3)
  have c4: "checksum f4 = 1234"
    using checksum_modes [OF p4] by (simp add: o4 a)
  show ?thesis
    using p1 p2 p3 p4 o1 c1 c2 c3 c4 by simp
qed

section \<open>Properties of the process\<close>

lemma main_preload: "preload_check argv \<Longrightarrow> main k env argv = ([], Some (Exit EX_CONFIG))"
  by (simp add: main_def preload_check_def stop_def)

lemma main_undefined:
  "\<not> preload_check argv \<Longrightarrow> parse_args k argv flags_zero = None \<Longrightarrow>
   main k env argv = ([], Some Undefined)"
  by (auto simp: main_def preload_check_def stop_def)

lemma main_usage:
  "\<not> preload_check argv \<Longrightarrow> parse_args k argv flags_zero = Some (argi, flags, argv') \<Longrightarrow>
   usage_error argv argi flags \<Longrightarrow> main k env argv = ([Print_usage], Some (Exit 1))"
  by (auto simp: main_def preload_check_def usage_error_def stop_def act_def seq_def)

lemma main_run:
  "\<not> preload_check argv \<Longrightarrow> parse_args k argv flags_zero = Some (argi, flags, argv') \<Longrightarrow>
   \<not> usage_error argv argi flags \<Longrightarrow>
   main k env argv =
     seq (assert_prerequisites env flags)
       (seq (perf_step env flags) (seq (wait_step env flags) (session_steps k env flags argv' argi)))"
  by (auto simp: main_def preload_check_def usage_error_def perf_step_def wait_step_def
      session_steps_def Let_def)

lemma fst_seq: "fst (seq p q) = (if snd p = None then fst p @ fst q else fst p)"
  by (simp add: seq_def split: option.splits)

lemma snd_seq: "snd (seq p q) = (if snd p = None then snd q else snd p)"
  by (simp add: seq_def split: option.splits)

lemma quiet_prerequisites: "quiet (assert_prerequisites env flags)"
  by (auto simp: quiet_def assert_prerequisites_def stop_def proceed_def
      split: sum.splits option.splits)

lemma quiet_perf: "quiet (perf_step env flags)"
  by (auto simp: quiet_def perf_step_def check_performance_settings_def stop_def proceed_def
      act_def Let_def split: governor_file.splits)

lemma quiet_wait: "quiet (wait_step env flags)"
  by (auto simp: quiet_def wait_step_def stop_def proceed_def act_def fst_seq)

lemma quiet_seq_mem:
  assumes "quiet p" and "a \<in> set (fst (seq p q))"
    and "is_session a \<or> a = Sched_setaffinity_cpu0 \<or> a = Print_usage"
  shows "snd p = None \<and> a \<in> set (fst q)"
  using assms by (auto simp: quiet_def fst_seq split: if_splits)

lemma pinned_first_append:
  "\<forall>a \<in> set xs. \<not> is_session a \<and> a \<noteq> Sched_setaffinity_cpu0 \<Longrightarrow>
   pinned_first (xs @ ys) = pinned_first ys"
  by (induction xs) auto

lemma pinned_first_quiet:
  "\<forall>a \<in> set xs. \<not> is_session a \<and> a \<noteq> Sched_setaffinity_cpu0 \<Longrightarrow> pinned_first xs"
  by (induction xs) auto

lemma quiet_seq_pinned:
  assumes "quiet p" and "pinned_first (fst q)"
  shows "pinned_first (fst (seq p q))"
  using assms pinned_first_append [of "fst p" "fst q"] pinned_first_quiet [of "fst p"]
  by (auto simp: quiet_def fst_seq)


lemmas step_defs = session_steps_def start_def seq_def act_def stop_def proceed_def

lemma session_steps_pinned: "\<not> cpu_unbound flags \<Longrightarrow> pinned_first (fst (session_steps k env flags argv argi))"
  by (simp add: step_defs)

lemma session_steps_unbound:
  "cpu_unbound flags \<Longrightarrow> Sched_setaffinity_cpu0 \<notin> set (fst (session_steps k env flags argv argi))"
  by (auto simp: step_defs split: rr_option.splits option.splits if_splits)

lemma session_steps_pin_fails:
  "\<not> cpu_unbound flags \<Longrightarrow> sched_setaffinity env < 0 \<Longrightarrow>
   session_steps k env flags argv argi = ([Sched_setaffinity_cpu0], Some Fatal)"
  by (simp add: step_defs)

lemma session_steps_no_usage: "Print_usage \<notin> set (fst (session_steps k env flags argv argi))"
  by (auto simp: step_defs split: rr_option.splits option.splits if_splits)

lemma session_steps_exit:
  assumes "a \<in> set (fst (session_steps k env flags argv argi))" and "is_session a"
    and "session_end env = None \<or> option flags = DUMP_EVENTS"
  shows "snd (session_steps k env flags argv argi) = Some (Exit 0)"
  using assms by (auto simp: step_defs split: rr_option.splits option.splits if_splits)

lemma session_steps_dump:
  assumes "Dump_session output \<in> set (fst (session_steps k env flags argv argi))"
  shows "option flags = DUMP_EVENTS \<and>
         output = start_dumping (raw_dump flags) (trace_open env) (drop (nat argi) argv)"
  using assms by (auto simp: step_defs split: rr_option.splits option.splits if_splits)

lemma main_cases:
  obtains (preload) "preload_check argv" "main k env argv = ([], Some (Exit EX_CONFIG))"
  | (undefined) "\<not> preload_check argv" "parse_args k argv flags_zero = None"
      "main k env argv = ([], Some Undefined)"
  | (usage) argi flags argv' where "\<not> preload_check argv"
      "parse_args k argv flags_zero = Some (argi, flags, argv')" "usage_error argv argi flags"
      "main k env argv = ([Print_usage], Some (Exit 1))"
  | (run) argi flags argv' where "\<not> preload_check argv"
      "parse_args k argv flags_zero = Some (argi, flags, argv')" "\<not> usage_error argv argi flags"
      "main k env argv =
         seq (assert_prerequisites env flags)
           (seq (perf_step env flags)
              (seq (wait_step env flags) (session_steps k env flags argv' argi)))"
proof (cases "preload_check argv")
  case True
  then show ?thesis using main_preload preload by blast
next
  case np: False
  show ?thesis
  proof (cases "parse_args k argv flags_zero")
    case None
    with np show ?thesis using main_undefined undefined by blast
  next
    case (Some r)
    obtain argi flags argv' where r: "r = (argi, flags, argv')" by (cases r)
    show ?thesis
    proof (cases "usage_error argv argi flags")
      case True
      with np Some r show ?thesis using main_usage usage by blast
    next
      case False
      with np Some r show ?thesis using main_run run by blast
    qed
  qed
qed

lemma run_member:
  assumes "a \<in> set (fst (seq (assert_prerequisites env flags)
             (seq (perf_step env flags) (seq (wait_step env flags) q))))"
    and "is_session a \<or> a = Sched_setaffinity_cpu0 \<or> a = Print_usage"
  shows "a \<in> set (fst q) \<and> assert_prerequisites env flags = proceed \<and>
         snd (seq (assert_prerequisites env flags)
               (seq (perf_step env flags) (seq (wait_step env flags) q))) = snd q"
proof -
  from quiet_seq_mem [OF quiet_prerequisites assms]
  have 1: "snd (assert_prerequisites env flags) = None"
    and m1: "a \<in> set (fst (seq (perf_step env flags) (seq (wait_step env flags) q)))"
    by simp_all
  from quiet_seq_mem [OF quiet_perf m1 assms(2)]
  have 2: "snd (perf_step env flags) = None"
    and m2: "a \<in> set (fst (seq (wait_step env flags) q))"
    by simp_all
  from quiet_seq_mem [OF quiet_wait m2 assms(2)]
  have 3: "snd (wait_step env flags) = None" and m3: "a \<in> set (fst q)"
    by simp_all
  have "assert_prerequisites env flags = proceed"
    using 1 by (auto simp: assert_prerequisites_def stop_def proceed_def
        split: sum.splits option.splits if_splits)
  with 1 2 3 m3 show ?thesis
    by (simp add: snd_seq)
qed

lemma run_pinned:
  assumes "pinned_first (fst q)"
  shows "pinned_first (fst (seq (assert_prerequisites env flags)
           (seq (perf_step env flags) (seq (wait_step env flags) q))))"
  by (intro quiet_seq_pinned quiet_prerequisites quiet_perf quiet_wait assms)

lemma parse_args_cpu_unbound:
  assumes "parse_args k argv flags_zero = Some (argi, flags, argv')" and "0 \<le> argi"
  shows "cpu_unbound flags \<longleftrightarrow> CHR ''u'' \<in> fst ` set (common_options argv)"
proof -
  from parse_args_success [OF assms] obtain f1 where
    f1: "apply_options (common_case k) (common_options argv) (defaults k flags_zero) = Some f1"
    and alt: "apply_options (record_case k) (record_options argv) (f1\<lparr>option := RECORD\<rparr>) =
        Some flags \<or>
      apply_options (replay_case k) (replay_options argv) (f1\<lparr>option := REPLAY\<rparr>) =
        Some flags \<or>
      apply_options dump_case (dump_options argv) (f1\<lparr>option := DUMP_EVENTS\<rparr>) = Some flags"
    by blast
  from alt record_case_keeps(2) replay_case_keeps(2) dump_case_keeps(2)
  have "cpu_unbound flags = cpu_unbound f1"
    by fastforce
  moreover have "\<not> cpu_unbound (defaults k flags_zero)"
    by (simp add: defaults_def flags_zero_def)
  ultimately show ?thesis
    using common_case_cpu_unbound [OF f1] last_arg_None [of "CHR ''u''" "common_options argv"]
    by (cases "last_arg CHR ''u'' (common_options argv)") auto
qed

lemma parse_args_raw_dump:
  assumes "parse_args k argv flags_zero = Some (argi, flags, argv')" and "0 \<le> argi"
    and "option flags = DUMP_EVENTS"
  shows "raw_dump flags \<longleftrightarrow> CHR ''r'' \<in> fst ` set (dump_options argv)"
proof -
  from parse_args_success [OF assms(1,2)] obtain f1 where
    f1: "apply_options (common_case k) (common_options argv) (defaults k flags_zero) = Some f1"
    and alt: "apply_options (record_case k) (record_options argv) (f1\<lparr>option := RECORD\<rparr>) =
        Some flags \<or>
      apply_options (replay_case k) (replay_options argv) (f1\<lparr>option := REPLAY\<rparr>) =
        Some flags \<or>
      apply_options dump_case (dump_options argv) (f1\<lparr>option := DUMP_EVENTS\<rparr>) = Some flags"
    by blast
  from alt assms(3) record_case_keeps(3) replay_case_keeps(3)
  have d: "apply_options dump_case (dump_options argv) (f1\<lparr>option := DUMP_EVENTS\<rparr>) =
      Some flags"
    by fastforce
  have "\<not> raw_dump f1"
    using common_case_keeps(4) [OF f1] by (simp add: defaults_def flags_zero_def)
  then show ?thesis
    using dump_case_raw_dump [OF d] last_arg_None [of "CHR ''r''" "dump_options argv"]
    by (cases "last_arg CHR ''r'' (dump_options argv)") auto
qed


lemma unat_KERNEL_VERSION:
  assumes "unat major \<le> 3" and "unat minor < 256"
  shows "unat (KERNEL_VERSION major minor 0) = unat major * 65536 + unat minor * 256"
proof -
  have a: "unat (push_bit 16 major) = unat major * 65536"
    using assms(1) by (simp add: push_bit_eq_mult unat_word_ariths)
  have b: "unat (push_bit 8 minor) = unat minor * 256"
    using assms(2) by (simp add: push_bit_eq_mult unat_word_ariths)
  show ?thesis
    using assms a b by (simp add: KERNEL_VERSION_def unat_word_ariths)
qed

lemma KERNEL_VERSION_below:
  assumes "unat minor < 256" and "version_below major minor 3 (unat b)" and "unat b < 256"
  shows "KERNEL_VERSION major minor 0 < KERNEL_VERSION 3 b 0"
proof -
  have m: "unat major \<le> 3"
    using assms(2) by (auto simp: version_below_def)
  have l: "unat (KERNEL_VERSION major minor 0) = unat major * 65536 + unat minor * 256"
    by (rule unat_KERNEL_VERSION [OF m assms(1)])
  have r: "unat (KERNEL_VERSION 3 b 0) = 3 * 65536 + unat b * 256"
    using unat_KERNEL_VERSION [of 3 b] assms(3) by simp
  show ?thesis
    using assms(1,2) l r by (auto simp: word_less_nat_alt version_below_def)
qed

lemma prerequisite_unmet_fatal:
  assumes "prerequisite_unmet env flags"
  shows "assert_prerequisites env flags = stop Fatal"
proof (cases "read_int_file (ptrace_scope_file env)")
  case (Inl out)
  then have "out = Fatal"
    by (auto simp: read_int_file_def split: option.splits)
  with Inl show ?thesis
    by (simp add: assert_prerequisites_def)
next
  case (Inr v)
  show ?thesis
  proof (cases "0 < v")
    case True
    with Inr show ?thesis by (simp add: assert_prerequisites_def)
  next
    case False
    with assms Inr obtain major minor where
      u: "uname_release env = Some (major, minor)" and mn: "unat minor < 256"
      and vb: "version_below major minor 3 4 \<or>
               use_syscall_buffer flags \<and> version_below major minor 3 5"
      by (auto simp: prerequisite_unmet_def split: option.splits)
    have 4: "KERNEL_VERSION major minor 0 < KERNEL_VERSION 3 4 0"
      if "version_below major minor 3 4"
      using KERNEL_VERSION_below [OF mn, of major 4] that by simp
    have 5: "KERNEL_VERSION major minor 0 < KERNEL_VERSION 3 5 0"
      if "version_below major minor 3 5"
      using KERNEL_VERSION_below [OF mn, of major 5] that by simp
    from vb 4 5 Inr False u show ?thesis
      by (auto simp: assert_prerequisites_def)
  qed
qed


lemma usage_error_nonneg: "\<not> usage_error argv argi flags \<Longrightarrow> 0 \<le> argi"
  by (simp add: usage_error_def)

text \<open>
  C5.  In every run of \<open>main\<close>: when a session (recording, replay or dump) was started
  and ran to completion, the process exits with status 0.  When a prerequisite is unmet
  (\<open>ptrace_scope\<close> greater than 0, a kernel below 3.4.0, or the syscall buffer enabled
  and a kernel below 3.5.0), no session is started and the process does not exit with
  status 0; if the command line was accepted, it is aborted by \<open>FATAL\<close> before any
  action.
\<close>

theorem exit_status:
  assumes "main k env argv = (acts, out)"
  shows "((\<exists>a \<in> set acts. is_session a) \<and>
          (session_end env = None \<or> (\<exists>output. Dump_session output \<in> set acts)) \<longrightarrow>
          out = Some (Exit 0)) \<and>
         (\<forall>argi flags argv'.
            parse_args k argv flags_zero = Some (argi, flags, argv') \<and>
            prerequisite_unmet env flags \<longrightarrow>
            (\<forall>a \<in> set acts. \<not> is_session a) \<and> out \<noteq> None \<and> out \<noteq> Some (Exit 0) \<and>
            (\<not> preload_check argv \<and> \<not> usage_error argv argi flags \<longrightarrow>
             acts = [] \<and> out = Some Fatal))"
proof (cases rule: main_cases [of argv k env])
  case preload
  with assms show ?thesis by (auto simp: EX_CONFIG_def)
next
  case undefined
  with assms show ?thesis by auto
next
  case (usage argi flags argv')
  with assms show ?thesis by auto
next
  case (run argi flags argv')
  let ?q = "session_steps k env flags argv' argi"
  have m: "(acts, out) = seq (assert_prerequisites env flags)
      (seq (perf_step env flags) (seq (wait_step env flags) ?q))"
    using assms run(4) by simp
  have one: "out = Some (Exit 0)"
    if a: "a \<in> set acts" "is_session a"
      and e: "session_end env = None \<or> (\<exists>output. Dump_session output \<in> set acts)" for a
  proof -
    have am: "a \<in> set (fst (seq (assert_prerequisites env flags)
        (seq (perf_step env flags) (seq (wait_step env flags) ?q))))"
      using a(1) m by (metis fst_conv)
    from run_member [OF am] a(2)
    have aq: "a \<in> set (fst ?q)" and sq: "out = snd ?q"
      using m by (metis snd_conv)+
    have "session_end env = None \<or> option flags = DUMP_EVENTS"
    proof (cases "session_end env = None")
      case True
      then show ?thesis by simp
    next
      case False
      with e obtain d where "Dump_session d \<in> set acts" by blast
      then have "Dump_session d \<in> set (fst (seq (assert_prerequisites env flags)
          (seq (perf_step env flags) (seq (wait_step env flags) ?q))))"
        using m by (metis fst_conv)
      from run_member [OF this] have "Dump_session d \<in> set (fst ?q)" by simp
      from session_steps_dump [OF this] show ?thesis by simp
    qed
    from session_steps_exit [OF aq a(2) this] sq show ?thesis by simp
  qed
  have two: "acts = [] \<and> out = Some Fatal" if "prerequisite_unmet env flags"
    using prerequisite_unmet_fatal [OF that] m by (simp add: seq_def stop_def)
  show ?thesis
    using one two run(2) by auto
qed

text \<open>
  C7.  In every run of \<open>main\<close>: when \<open>-u\<close>/\<open>--cpu-unbound\<close> is not among the common
  options, no session starts before the process has called \<open>sched_setaffinity\<close> for
  CPU 0, and if that call fails no session starts at all and the process is aborted by
  \<open>FATAL\<close>; when the option is given, \<open>sched_setaffinity\<close> is not called.
\<close>

theorem cpu_pinning:
  assumes "main k env argv = (acts, out)"
  shows "(CHR ''u'' \<notin> fst ` set (common_options argv) \<longrightarrow>
            pinned_first acts \<and>
            (sched_setaffinity env < 0 \<longrightarrow>
               (\<forall>a \<in> set acts. \<not> is_session a) \<and>
               (Sched_setaffinity_cpu0 \<in> set acts \<longrightarrow> out = Some Fatal))) \<and>
         (CHR ''u'' \<in> fst ` set (common_options argv) \<longrightarrow>
            Sched_setaffinity_cpu0 \<notin> set acts)"
proof (cases rule: main_cases [of argv k env])
  case preload
  with assms show ?thesis by auto
next
  case undefined
  with assms show ?thesis by auto
next
  case (usage argi flags argv')
  with assms show ?thesis by auto
next
  case (run argi flags argv')
  let ?q = "session_steps k env flags argv' argi"
  let ?m = "seq (assert_prerequisites env flags)
      (seq (perf_step env flags) (seq (wait_step env flags) ?q))"
  have m: "acts = fst ?m" "out = snd ?m"
    using assms run(4) by simp_all
  have u: "cpu_unbound flags \<longleftrightarrow> CHR ''u'' \<in> fst ` set (common_options argv)"
    by (rule parse_args_cpu_unbound [OF run(2) usage_error_nonneg [OF run(3)]])
  have bound: "pinned_first acts" if "\<not> cpu_unbound flags"
    unfolding m by (rule run_pinned [OF session_steps_pinned [OF that]])
  have fails: "(\<forall>a \<in> set acts. \<not> is_session a) \<and>
      (Sched_setaffinity_cpu0 \<in> set acts \<longrightarrow> out = Some Fatal)"
    if nb: "\<not> cpu_unbound flags" and f: "sched_setaffinity env < 0"
  proof -
    note q = session_steps_pin_fails [OF nb f, of k argv' argi]
    have "\<not> is_session a" if "a \<in> set acts" for a
    proof
      assume "is_session a"
      with run_member [of a env flags ?q] that m(1) have "a \<in> set (fst ?q)" by simp
      with q \<open>is_session a\<close> show False by simp
    qed
    moreover have "out = Some Fatal" if "Sched_setaffinity_cpu0 \<in> set acts"
      using run_member [of Sched_setaffinity_cpu0 env flags ?q] that m q by simp
    ultimately show ?thesis by blast
  qed
  have unbound: "Sched_setaffinity_cpu0 \<notin> set acts" if "cpu_unbound flags"
  proof
    assume "Sched_setaffinity_cpu0 \<in> set acts"
    with run_member [of Sched_setaffinity_cpu0 env flags ?q] m(1)
    have "Sched_setaffinity_cpu0 \<in> set (fst ?q)" by simp
    with session_steps_unbound [OF that] show False by blast
  qed
  show ?thesis
    using u bound fails unbound by blast
qed


lemmas main_eval =
  main_def assert_prerequisites_def read_int_file_def check_performance_settings_def
  find_syscall_buffer_library_def start_def seq_def act_def stop_def proceed_def
  KERNEL_VERSION_def EX_CONFIG_def example_env_def

theorem exit_status_witness:
  "(\<exists>a \<in> set (fst (main example_constants example_env [''rr'', ''record'', ''prog''])).
      is_session a) \<and>
   session_end example_env = None \<and>
   snd (main example_constants example_env [''rr'', ''record'', ''prog'']) = Some (Exit 0) \<and>
   (\<exists>argi flags argv'.
      parse_args example_constants [''rr'', ''record'', ''prog''] flags_zero =
        Some (argi, flags, argv') \<and>
      prerequisite_unmet (example_env\<lparr>ptrace_scope_file := Some ''1''\<rparr>) flags \<and>
      prerequisite_unmet (example_env\<lparr>uname_release := Some (3, 3)\<rparr>) flags \<and>
      prerequisite_unmet (example_env\<lparr>uname_release := Some (3, 4)\<rparr>) flags \<and>
      \<not> preload_check [''rr'', ''record'', ''prog''] \<and>
      \<not> usage_error [''rr'', ''record'', ''prog''] argi flags) \<and>
   main example_constants (example_env\<lparr>ptrace_scope_file := Some ''1''\<rparr>)
     [''rr'', ''record'', ''prog''] = ([], Some Fatal) \<and>
   main example_constants (example_env\<lparr>uname_release := Some (3, 3)\<rparr>)
     [''rr'', ''record'', ''prog''] = ([], Some Fatal) \<and>
   main example_constants (example_env\<lparr>uname_release := Some (3, 4)\<rparr>)
     [''rr'', ''record'', ''prog''] = ([], Some Fatal)"
proof -
  let ?argv = "[''rr'', ''record'', ''prog'']"
  let ?e1 = "example_env\<lparr>ptrace_scope_file := Some ''1''\<rparr>"
  let ?e2 = "example_env\<lparr>uname_release := Some (3, 3)\<rparr>"
  let ?e3 = "example_env\<lparr>uname_release := Some (3, 4)\<rparr>"
  have "\<exists>f. parse_args example_constants ?argv flags_zero = Some (2, f, ?argv) \<and>
      use_syscall_buffer f \<and> option f = RECORD"
    by (simp add: parse_eval getopt_eval)
  then obtain f where p: "parse_args example_constants ?argv flags_zero = Some (2, f, ?argv)"
    and sb: "use_syscall_buffer f" and r: "option f = RECORD"
    by blast
  have s: "\<exists>a \<in> set (fst (main example_constants example_env ?argv)). is_session a"
    by (simp add: main_eval atoi_eval p r sb)
  have e: "session_end example_env = None"
    by (simp add: example_env_def)
  have np: "\<not> preload_check ?argv" "\<not> usage_error ?argv 2 f"
    by (simp_all add: preload_check_def usage_error_def r)
  have u: "prerequisite_unmet ?e1 f" "prerequisite_unmet ?e2 f" "prerequisite_unmet ?e3 f"
    using sb
    by (simp_all add: prerequisite_unmet_def version_below_def read_int_file_def
        example_env_def atoi_eval)
  note t0 = exit_status [where k = example_constants and env = "example_env" and argv = "?argv",
      OF surjective_pairing]
  note t1 = exit_status [where k = example_constants and env = "?e1" and argv = "?argv",
      OF surjective_pairing]
  note t2 = exit_status [where k = example_constants and env = "?e2" and argv = "?argv",
      OF surjective_pairing]
  note t3 = exit_status [where k = example_constants and env = "?e3" and argv = "?argv",
      OF surjective_pairing]
  have x0: "snd (main example_constants example_env ?argv) = Some (Exit 0)"
    using t0 s e by blast
  have x1: "main example_constants ?e1 ?argv = ([], Some Fatal)"
    using t1 p u(1) np by (metis prod.collapse)
  have x2: "main example_constants ?e2 ?argv = ([], Some Fatal)"
    using t2 p u(2) np by (metis prod.collapse)
  have x3: "main example_constants ?e3 ?argv = ([], Some Fatal)"
    using t3 p u(3) np by (metis prod.collapse)
  show ?thesis
    using s e x0 p u np x1 x2 x3 by blast
qed

theorem cpu_pinning_witness:
  "CHR ''u'' \<notin> fst ` set (common_options [''rr'', ''replay'']) \<and>
   pinned_first (fst (main example_constants example_env [''rr'', ''replay''])) \<and>
   (\<exists>a \<in> set (fst (main example_constants example_env [''rr'', ''replay''])). is_session a) \<and>
   sched_setaffinity (example_env\<lparr>sched_setaffinity := - 1\<rparr>) < 0 \<and>
   main example_constants (example_env\<lparr>sched_setaffinity := - 1\<rparr>) [''rr'', ''replay''] =
     ([Sched_setaffinity_cpu0], Some Fatal) \<and>
   CHR ''u'' \<in> fst ` set (common_options [''rr'', ''--cpu-unbound'', ''replay'']) \<and>
   Sched_setaffinity_cpu0 \<notin>
     set (fst (main example_constants example_env [''rr'', ''--cpu-unbound'', ''replay''])) \<and>
   (\<exists>a \<in> set (fst (main example_constants example_env [''rr'', ''--cpu-unbound'', ''replay''])).
      is_session a)"
proof -
  let ?a = "[''rr'', ''replay'']"
  let ?b = "[''rr'', ''--cpu-unbound'', ''replay'']"
  let ?e = "example_env\<lparr>sched_setaffinity := - 1\<rparr>"
  have oa: "CHR ''u'' \<notin> fst ` set (common_options ?a)"
    by (simp add: options_eval getopt_eval)
  have ob: "CHR ''u'' \<in> fst ` set (common_options ?b)"
    by (simp add: options_eval getopt_eval)
  have sa: "\<exists>a \<in> set (fst (main example_constants example_env ?a)). is_session a"
    by (simp add: main_eval parse_eval getopt_eval atoi_eval)
  have sb: "\<exists>a \<in> set (fst (main example_constants example_env ?b)). is_session a"
    by (simp add: main_eval parse_eval getopt_eval atoi_eval)
  have f: "sched_setaffinity ?e < 0"
    by simp
  have fm: "main example_constants ?e ?a = ([Sched_setaffinity_cpu0], Some Fatal)"
    by (simp add: main_eval parse_eval getopt_eval atoi_eval)
  note ta = cpu_pinning [where k = example_constants and env = "example_env" and argv = "?a",
      OF surjective_pairing]
  note tb = cpu_pinning [where k = example_constants and env = "example_env" and argv = "?b",
      OF surjective_pairing]
  have pa: "pinned_first (fst (main example_constants example_env ?a))"
    using ta oa by blast
  have pb: "Sched_setaffinity_cpu0 \<notin> set (fst (main example_constants example_env ?b))"
    using tb ob by blast
  show ?thesis
    using oa pa sa f fm ob pb sb by blast
qed



text \<open>
  C10.  \<open>main\<close> prints the usage text and returns 1 for a \<open>record\<close> or \<open>dump\<close>
  command when \<open>argc <= argi\<close>, where \<open>argi\<close>, the value of \<open>parse_args\<close>, is meant
  to be the index of the first positional argument.  On \<open>rr record\<close> and \<open>rr dump\<close>
  that is what happens.  On \<open>rr -- record\<close> and \<open>rr -- dump\<close>, no positional argument
  follows the command either, but the scan of the command's options ends with \<open>optind\<close>
  set back to the command word: \<open>parse_args\<close> returns 2, the usage text is not printed,
  and \<open>main\<close> starts a recording of the program \<open>record\<close>, or a dump of the trace
  \<open>dump\<close>, and returns 0.
\<close>

theorem no_positional_argument_after_double_dash:
  "main example_constants example_env [''rr'', ''record''] = ([Print_usage], Some (Exit 1)) \<and>
   main example_constants example_env [''rr'', ''dump''] = ([Print_usage], Some (Exit 1)) \<and>
   (\<exists>flags.
      parse_args example_constants [''rr'', ''--'', ''record''] flags_zero =
        Some (2, flags, [''rr'', ''--'', ''record'']) \<and>
      option flags = RECORD \<and>
      main example_constants example_env [''rr'', ''--'', ''record''] =
        ([Sched_setaffinity_cpu0, Setenv_syscallbuf_enabled,
          Record_session
            (flags\<lparr>syscall_buffer_lib_path := ''/usr/bin/../lib/librrpreload.so''\<rparr>)
            ''rr'' [''record'']],
         Some (Exit 0))) \<and>
   (\<exists>flags.
      parse_args example_constants [''rr'', ''--'', ''dump''] flags_zero =
        Some (2, flags, [''rr'', ''--'', ''dump'']) \<and>
      option flags = DUMP_EVENTS \<and>
      main example_constants example_env [''rr'', ''--'', ''dump''] =
        ([Sched_setaffinity_cpu0,
          Dump_session (start_dumping False (trace_open example_env) [''dump''])],
         Some (Exit 0)))"
proof -
  have 1: "main example_constants example_env [''rr'', ''record''] =
      ([Print_usage], Some (Exit 1))"
    by (simp add: main_eval parse_eval getopt_eval atoi_eval)
  have 2: "main example_constants example_env [''rr'', ''dump''] =
      ([Print_usage], Some (Exit 1))"
    by (simp add: main_eval parse_eval getopt_eval atoi_eval)
  have "\<exists>f. parse_args example_constants [''rr'', ''--'', ''record''] flags_zero =
        Some (2, f, [''rr'', ''--'', ''record'']) \<and>
      option f = RECORD \<and> use_syscall_buffer f \<and> \<not> suppress_performance_warnings f \<and>
      wait_secs f = 0 \<and> \<not> cpu_unbound f"
    by (simp add: parse_eval getopt_eval)
  then obtain f where
    p: "parse_args example_constants [''rr'', ''--'', ''record''] flags_zero =
        Some (2, f, [''rr'', ''--'', ''record''])"
    and f: "option f = RECORD" "use_syscall_buffer f" "\<not> suppress_performance_warnings f"
      "wait_secs f = 0" "\<not> cpu_unbound f"
    by blast
  have l: "SYSCALLBUF_LIB_FILENAME example_constants = ''librrpreload.so''"
    by (simp add: example_constants_def)
  have m: "main example_constants example_env [''rr'', ''--'', ''record''] =
      ([Sched_setaffinity_cpu0, Setenv_syscallbuf_enabled,
        Record_session (f\<lparr>syscall_buffer_lib_path := ''/usr/bin/../lib/librrpreload.so''\<rparr>)
          ''rr'' [''record'']],
       Some (Exit 0))"
    by (simp add: main_eval atoi_eval p f l)
  have "\<exists>g. parse_args example_constants [''rr'', ''--'', ''dump''] flags_zero =
        Some (2, g, [''rr'', ''--'', ''dump'']) \<and>
      option g = DUMP_EVENTS \<and> use_syscall_buffer g \<and> \<not> suppress_performance_warnings g \<and>
      wait_secs g = 0 \<and> \<not> cpu_unbound g \<and> \<not> raw_dump g"
    by (simp add: parse_eval getopt_eval)
  then obtain g where
    q: "parse_args example_constants [''rr'', ''--'', ''dump''] flags_zero =
        Some (2, g, [''rr'', ''--'', ''dump''])"
    and g: "option g = DUMP_EVENTS" "use_syscall_buffer g" "\<not> suppress_performance_warnings g"
      "wait_secs g = 0" "\<not> cpu_unbound g" "\<not> raw_dump g"
    by blast
  have n: "main example_constants example_env [''rr'', ''--'', ''dump''] =
      ([Sched_setaffinity_cpu0,
        Dump_session (start_dumping False (trace_open example_env) [''dump''])],
       Some (Exit 0))"
    by (simp add: main_eval atoi_eval q g)
  from p f(1) m have 3: "\<exists>flags.
      parse_args example_constants [''rr'', ''--'', ''record''] flags_zero =
        Some (2, flags, [''rr'', ''--'', ''record'']) \<and>
      option flags = RECORD \<and>
      main example_constants example_env [''rr'', ''--'', ''record''] =
        ([Sched_setaffinity_cpu0, Setenv_syscallbuf_enabled,
          Record_session
            (flags\<lparr>syscall_buffer_lib_path := ''/usr/bin/../lib/librrpreload.so''\<rparr>)
            ''rr'' [''record'']],
         Some (Exit 0))"
    by blast
  from q g(1) n have 4: "\<exists>flags.
      parse_args example_constants [''rr'', ''--'', ''dump''] flags_zero =
        Some (2, flags, [''rr'', ''--'', ''dump'']) \<and>
      option flags = DUMP_EVENTS \<and>
      main example_constants example_env [''rr'', ''--'', ''dump''] =
        ([Sched_setaffinity_cpu0,
          Dump_session (start_dumping False (trace_open example_env) [''dump''])],
         Some (Exit 0))"
    by blast
  show ?thesis
    by (intro conjI 1 2 3 4)
qed

section \<open>The lines of a dump\<close>

lemma header_columns_eq:
  "header_columns =
     [''global_time'', ''thread_time'', ''tid'', ''reason'', ''entry/exit'', ''hw_interrupts'',
      ''page_faults'', ''adapted_rbc'', ''instructions'', ''eax'', ''ebx'', ''ecx'', ''edx'',
      ''esi'', ''edi'', ''ebp'', ''orig_eax'', ''esp'', ''eip'', ''eflags'']"
  by (simp add: header_columns_def dump_header_def)

lemma frame_lines_append [simp]: "frame_lines (xs @ ys) = frame_lines xs @ frame_lines ys"
  by (induction xs rule: frame_lines.induct) auto

lemma dump_loop_lines:
  "set (frame_lines (snd (dump_loop lo hi raw trace out))) \<subseteq>
   set (frame_lines out) \<union> (\<lambda>f. trace_frame_dump f raw) ` set trace"
proof (induction trace arbitrary: out)
  case Nil
  then show ?case by simp
next
  case (Cons frame trace)
  show ?case
    using Cons.IH [of "out @ [Frame_dump frame raw]"] Cons.IH [of out]
    by (auto split: if_splits)
qed

lemma dump_events_matching_lines:
  "set (frame_lines (snd (dump_events_matching raw trace out spec))) \<subseteq>
   set (frame_lines out) \<union> range (\<lambda>f. trace_frame_dump f raw)"
proof -
  have "\<exists>lo hi. dump_events_matching raw trace out spec = dump_loop lo hi raw trace out"
    by (simp add: dump_events_matching_def Let_def case_prod_beta) blast
  then obtain lo hi where
    "dump_events_matching raw trace out spec = dump_loop lo hi raw trace out"
    by blast
  with dump_loop_lines [of lo hi raw trace out] show ?thesis
    by auto
qed

lemma dump_specs_lines:
  "set (frame_lines (snd (dump_specs raw trace out specs))) \<subseteq>
   set (frame_lines out) \<union> range (\<lambda>f. trace_frame_dump f raw)"
proof (induction specs arbitrary: trace out)
  case Nil
  then show ?case by simp
next
  case (Cons spec specs)
  obtain trace' out' where
    d: "dump_events_matching raw trace out (Some spec) = (trace', out')"
    by (cases "dump_events_matching raw trace out (Some spec)")
  from dump_events_matching_lines [of raw trace out "Some spec"] d
  have "set (frame_lines out') \<subseteq> set (frame_lines out) \<union> range (\<lambda>f. trace_frame_dump f raw)"
    by simp
  with Cons.IH [of trace' out'] d show ?case
    by auto
qed

lemma start_dumping_lines:
  assumes "l \<in> set (frame_lines (start_dumping raw trace argv))"
  shows "\<exists>frame. l = trace_frame_dump frame raw"
proof -
  have "set (frame_lines (start_dumping raw trace argv)) \<subseteq> range (\<lambda>f. trace_frame_dump f raw)"
    using dump_events_matching_lines [of raw trace "[Text dump_header]" None]
      dump_specs_lines [of raw trace "[Text dump_header]" "drop 1 argv"]
    by (auto simp: start_dumping_def Let_def)
  with assms show ?thesis by auto
qed

text \<open>
  C8.  In every run of \<open>main\<close> that dumps, every frame line of the dump has its fields
  in this order: \<open>global_time\<close>, \<open>thread_time\<close>, \<open>tid\<close>, \<open>reason\<close>, entry/exit, the
  hardware-interrupt count, the page-fault count, the adapted retired-conditional-branch
  count, the instruction count, then the registers; this is the order of the columns of
  the header.  The line is in raw form when \<open>-r\<close>/\<open>--raw\<close> is among the options of the
  \<open>dump\<close> command, and in human-readable form otherwise.
\<close>

theorem dump_lines:
  assumes "main k env argv = (acts, out)" and "Dump_session dumped \<in> set acts"
    and "l \<in> set (frame_lines dumped)"
  shows "map fst (line_fields l) =
           [''global_time'', ''thread_time'', ''tid'', ''reason'', ''entry/exit'',
            ''hw_interrupts'', ''page_faults'', ''adapted_rbc'', ''instructions'',
            ''eax'', ''ebx'', ''ecx'', ''edx'', ''esi'', ''edi'', ''ebp'', ''orig_eax'',
            ''esp'', ''eip'', ''eflags''] \<and>
         map fst (line_fields l) = header_columns \<and>
         line_form l = (if CHR ''r'' \<in> fst ` set (dump_options argv) then Raw else Human_readable)"
proof (cases rule: main_cases [of argv k env])
  case preload
  with assms show ?thesis by simp
next
  case undefined
  with assms show ?thesis by simp
next
  case (usage argi flags argv')
  with assms show ?thesis by auto
next
  case (run argi flags argv')
  let ?q = "session_steps k env flags argv' argi"
  have "Dump_session dumped \<in> set (fst (seq (assert_prerequisites env flags)
      (seq (perf_step env flags) (seq (wait_step env flags) ?q))))"
    using assms(1,2) run(4) by simp
  from run_member [OF this] have "Dump_session dumped \<in> set (fst ?q)"
    by simp
  from session_steps_dump [OF this]
  have o: "option flags = DUMP_EVENTS"
    and d: "dumped = start_dumping (raw_dump flags) (trace_open env) (drop (nat argi) argv')"
    by simp_all
  from start_dumping_lines assms(3) d obtain frame where
    l: "l = trace_frame_dump frame (raw_dump flags)"
    by blast
  have r: "raw_dump flags \<longleftrightarrow> CHR ''r'' \<in> fst ` set (dump_options argv)"
    by (rule parse_args_raw_dump [OF run(2) usage_error_nonneg [OF run(3)] o])
  show ?thesis
    using l r by (simp add: trace_frame_dump_def header_columns_eq)
qed

theorem dump_lines_witness:
  "(\<exists>dumped.
      Dump_session dumped \<in>
        set (fst (main example_constants example_env [''rr'', ''dump'', ''-r'', ''trace''])) \<and>
      frame_lines dumped = map (\<lambda>f. trace_frame_dump f True) (trace_open example_env) \<and>
      (\<forall>l \<in> set (frame_lines dumped). line_form l = Raw \<and> map fst (line_fields l) = header_columns)) \<and>
   CHR ''r'' \<in> fst ` set (dump_options [''rr'', ''dump'', ''-r'', ''trace''])"
proof -
  let ?argv = "[''rr'', ''dump'', ''-r'', ''trace'']"
  let ?d = "Text dump_header # map (\<lambda>f. Frame_dump f True) (trace_open example_env)"
  have "fst (main example_constants example_env ?argv) =
      [Sched_setaffinity_cpu0, Dump_session ?d]"
    by (simp add: main_eval parse_eval getopt_eval atoi_eval start_dumping_def dump_no_spec
        dump_all)
  then have m: "Dump_session ?d \<in> set (fst (main example_constants example_env ?argv))"
    by simp
  have r: "CHR ''r'' \<in> fst ` set (dump_options ?argv)"
    by (simp add: options_eval getopt_eval)
  have fl: "frame_lines ?d = map (\<lambda>f. trace_frame_dump f True) (trace_open example_env)"
    by (simp add: example_env_def)
  have "line_form l = Raw \<and> map fst (line_fields l) = header_columns" if "l \<in> set (frame_lines ?d)" for l
    using dump_lines [where k = example_constants and env = example_env and argv = ?argv,
        OF surjective_pairing m that] r
    by (simp add: header_columns_eq)
  with m fl r show ?thesis
    by blast
qed

end
